theory Spec2Isabelle
  imports Main "HOL-Library.AList"
begin

section \<open>Strings\<close>

text \<open>
  A JavaScript string is a sequence of UTF-16 code units. The embedding covers the code
  units U+0000 to U+00FF (one \<^typ>\<open>char\<close> each, read as Latin-1), which contain every
  character the source matches on: the ASCII letters and digits, the separators, and the
  accented letters of the month table (\<open>U+00E9\<close>, \<open>U+00FB\<close>).
\<close>

definition code :: "char \<Rightarrow> nat" where
  "code c = of_char c"

text \<open>The character classes of the regular expressions: \<open>\d\<close>, \<open>\s\<close>, \<open>\w\<close> and \<open>[a-z0-9]\<close>.\<close>

definition isDigit :: "char \<Rightarrow> bool" where
  "isDigit c = (48 \<le> code c \<and> code c \<le> 57)"

definition isSpace :: "char \<Rightarrow> bool" where
  "isSpace c = (code c \<in> {9, 10, 11, 12, 13, 32, 160})"

definition isWordChar :: "char \<Rightarrow> bool" where
  "isWordChar c = (isDigit c \<or> (65 \<le> code c \<and> code c \<le> 90)
     \<or> (97 \<le> code c \<and> code c \<le> 122) \<or> code c = 95)"

definition isLowerAlnum :: "char \<Rightarrow> bool" where
  "isLowerAlnum c = ((97 \<le> code c \<and> code c \<le> 122) \<or> isDigit c)"

text \<open>
  \<open>String.prototype.toLowerCase\<close> on these code units: \<open>A-Z\<close> and the upper-case
  letters \<open>U+00C0 .. U+00DE\<close> (without the multiplication sign \<open>U+00D7\<close>) move up by 32,
  every other code unit stays.
\<close>

definition toLowerCase_char :: "char \<Rightarrow> char" where
  "toLowerCase_char c =
     (if (65 \<le> code c \<and> code c \<le> 90) \<or> (192 \<le> code c \<and> code c \<le> 222 \<and> code c \<noteq> 215)
      then char_of (code c + 32) else c)"

definition toLowerCase :: "string \<Rightarrow> string" where
  "toLowerCase s = map toLowerCase_char s"

text \<open>\<open>s.replace(/[^a-z0-9]/g, "")\<close>: every code unit outside \<open>a-z0-9\<close> is dropped.\<close>

definition stripNonAlnum :: "string \<Rightarrow> string" where
  "stripNonAlnum s = filter isLowerAlnum s"

text \<open>\<open>s.startsWith(p)\<close>, \<open>s.includes(p)\<close>, and \<open>s.indexOf(p)\<close> with its \<open>-1\<close>.\<close>

definition startsWith :: "string \<Rightarrow> string \<Rightarrow> bool" where
  "startsWith s p = (take (length p) s = p)"

fun str_includes :: "string \<Rightarrow> string \<Rightarrow> bool" where
  "str_includes [] p = (p = [])"
| "str_includes (c # cs) p = (startsWith (c # cs) p \<or> str_includes cs p)"

fun indexOf_from :: "nat \<Rightarrow> string \<Rightarrow> string \<Rightarrow> int" where
  "indexOf_from i [] p = (if p = [] then int i else -1)"
| "indexOf_from i (c # cs) p =
     (if startsWith (c # cs) p then int i else indexOf_from (Suc i) cs p)"

definition indexOf :: "string \<Rightarrow> string \<Rightarrow> int" where
  "indexOf s p = indexOf_from 0 s p"

text \<open>\<open>parseInt\<close> on the digit strings the regular expressions capture: the value of
  the leading decimal digits.\<close>

definition parseInt :: "string \<Rightarrow> int" where
  "parseInt s = foldl (\<lambda>n c. 10 * n + (int (code c) - 48)) 0 (takeWhile isDigit s)"

section \<open>The regular expressions of the date parser\<close>

text \<open>
  \<open>/(\d{1,2})\s*(?:h|:)\s*(\d{0,2})/gi\<close>. At one start position the match is
  deterministic: the greedy \<open>\d{1,2}\<close> takes two digits when there are two (giving one
  back leaves a digit in front of \<open>\s*(?:h|:)\<close>, which fails), the greedy \<open>\s*\<close> takes
  all white space (giving some back leaves white space in front of the separator), and
  the tail \<open>\s*(\d{0,2})\<close> always succeeds at its greediest. \<open>takeDigits2\<close> is the greedy
  \<open>\d{0,2}\<close>; \<open>matchTimeAt\<close> returns both groups and the text after the match.
\<close>

definition takeDigits2 :: "string \<Rightarrow> string \<times> string" where
  "takeDigits2 s = (let ds = takeWhile isDigit (take 2 s) in (ds, drop (length ds) s))"

definition matchTimeAt :: "string \<Rightarrow> (string \<times> string \<times> string) option" where
  "matchTimeAt s =
     (case takeDigits2 s of (g1, r1) \<Rightarrow>
        if g1 = [] then None
        else (case dropWhile isSpace r1 of
                [] \<Rightarrow> None
              | c # r2 \<Rightarrow>
                  if c = CHR ''h'' \<or> c = CHR ''H'' \<or> c = CHR '':''
                  then (case takeDigits2 (dropWhile isSpace r2) of (g2, r3) \<Rightarrow> Some (g1, g2, r3))
                  else None))"

lemma matchTimeAt_shorter:
  assumes "matchTimeAt s = Some (g1, g2, r)"
  shows "length r < length s"
proof -
  have d: "length (dropWhile P xs) \<le> length xs" for P and xs :: string
    by (induction xs) auto
  obtain a r1 where t1: "takeDigits2 s = (a, r1)" by (cases "takeDigits2 s")
  from assms t1 obtain c r2 where c: "dropWhile isSpace r1 = c # r2"
    by (auto simp: matchTimeAt_def split: if_splits list.splits)
  obtain b r3 where t2: "takeDigits2 (dropWhile isSpace r2) = (b, r3)"
    by (cases "takeDigits2 (dropWhile isSpace r2)")
  from assms t1 c t2 have r: "r = r3"
    by (auto simp: matchTimeAt_def split: if_splits)
  have "length r3 \<le> length (dropWhile isSpace r2)"
    using t2 by (auto simp: takeDigits2_def Let_def)
  also have "\<dots> \<le> length r2" by (rule d)
  also have "\<dots> < length (dropWhile isSpace r1)" using c by simp
  also have "\<dots> \<le> length r1" by (rule d)
  also have "\<dots> \<le> length s" using t1 by (auto simp: takeDigits2_def Let_def)
  finally show ?thesis using r by simp
qed

text \<open>
  \<open>[...cleanStr.matchAll(timeRegex)]\<close>: the matches from left to right, each search
  starting where the previous match ended; of each match the two groups are kept.
\<close>

function matchAllTime :: "string \<Rightarrow> (string \<times> string) list" where
  "matchAllTime [] = []"
| "matchAllTime (c # cs) =
     (case matchTimeAt (c # cs) of
        Some (g1, g2, r) \<Rightarrow> (g1, g2) # matchAllTime r
      | None \<Rightarrow> matchAllTime cs)"
  by pat_completeness auto
termination
  by (relation "measure length") (auto dest: matchTimeAt_shorter)

text \<open>\<open>cleanStr.replace(timeRegex, "TIME")\<close>: every match becomes the placeholder.\<close>

function maskTimes :: "string \<Rightarrow> string" where
  "maskTimes [] = []"
| "maskTimes (c # cs) =
     (case matchTimeAt (c # cs) of
        Some (g1, g2, r) \<Rightarrow> ''TIME'' @ maskTimes r
      | None \<Rightarrow> c # maskTimes cs)"
  by pat_completeness auto
termination
  by (relation "measure length") (auto dest: matchTimeAt_shorter)

text \<open>
  \<open>str.match(/\b([1-3][0-9]|[1-9])\b/)\<close>: the leftmost match, at each position the
  two-digit alternative first. The first argument says whether the code unit before the
  position is a word character (\<open>False\<close> at the start of the string), which decides the
  leading \<open>\b\<close>; the trailing \<open>\b\<close> asks for a non-word character or the end of the
  string after the digits.
\<close>

fun findDay :: "bool \<Rightarrow> string \<Rightarrow> string option" where
  "findDay w [] = None"
| "findDay w [c] = (if \<not> w \<and> 49 \<le> code c \<and> code c \<le> 57 then Some [c] else None)"
| "findDay w (c # d # r) =
     (if \<not> w \<and> 49 \<le> code c \<and> code c \<le> 51 \<and> isDigit d \<and> (case r of [] \<Rightarrow> True | e # _ \<Rightarrow> \<not> isWordChar e)
      then Some [c, d]
      else if \<not> w \<and> 49 \<le> code c \<and> code c \<le> 57 \<and> \<not> isWordChar d
      then Some [c]
      else findDay (isWordChar c) (d # r))"

section \<open>Dates\<close>

text \<open>
  A \<open>Date\<close> is its time value: milliseconds since the epoch, an integer. The embedding
  works in local time throughout (a zone with a constant offset from UTC, so that local
  time and UTC differ by a constant that no comparison and no difference sees). Time
  values stay far inside the range where \<open>TimeClip\<close> is the identity, so no \<open>Date\<close> is
  invalid. The functions below are those of the ECMAScript specification (section
  "Time Values and Time Range" and following) under their names there.
\<close>

type_synonym Date = int

definition msPerDay :: int where "msPerDay = 86400000"
definition msPerHour :: int where "msPerHour = 3600000"
definition msPerMinute :: int where "msPerMinute = 60000"
definition msPerSecond :: int where "msPerSecond = 1000"

definition Day :: "Date \<Rightarrow> int" where
  "Day t = t div msPerDay"

definition TimeWithinDay :: "Date \<Rightarrow> int" where
  "TimeWithinDay t = t mod msPerDay"

definition DayFromYear :: "int \<Rightarrow> int" where
  "DayFromYear y = 365 * (y - 1970) + (y - 1969) div 4 - (y - 1901) div 100 + (y - 1601) div 400"

definition InLeapYear :: "int \<Rightarrow> int" where
  "InLeapYear y = (if y mod 4 = 0 \<and> (y mod 100 \<noteq> 0 \<or> y mod 400 = 0) then 1 else 0)"

text \<open>
  \<open>YearFromTime(t)\<close> is the largest \<open>y\<close> with \<open>DayFromYear(y) \<le> Day(t)\<close>. It is computed
  here from the day number counted from 1 January 1601 (day \<open>-134774\<close>), by the cycles of
  400, 100, 4 and 1 years.
\<close>

definition YearFromDay :: "int \<Rightarrow> int" where
  "YearFromDay d =
     (let n = d + 134774;
          q400 = n div 146097; r400 = n mod 146097;
          q100 = min (r400 div 36524) 3; r100 = r400 - q100 * 36524;
          q4 = r100 div 1461; r4 = r100 mod 1461;
          q1 = min (r4 div 365) 3
      in 1601 + 400 * q400 + 100 * q100 + 4 * q4 + q1)"

definition YearFromTime :: "Date \<Rightarrow> int" where
  "YearFromTime t = YearFromDay (Day t)"

definition DayWithinYear :: "Date \<Rightarrow> int" where
  "DayWithinYear t = Day t - DayFromYear (YearFromTime t)"

text \<open>The number of days of the year before month \<open>m\<close> (0 to 11); \<open>l\<close> is 1 in a leap year.\<close>

definition daysBeforeMonth :: "int \<Rightarrow> int \<Rightarrow> int" where
  "daysBeforeMonth l m =
     (if m \<le> 0 then 0 else if m = 1 then 31 else if m = 2 then 59 + l
      else if m = 3 then 90 + l else if m = 4 then 120 + l else if m = 5 then 151 + l
      else if m = 6 then 181 + l else if m = 7 then 212 + l else if m = 8 then 243 + l
      else if m = 9 then 273 + l else if m = 10 then 304 + l else 334 + l)"

definition MonthFromTime :: "Date \<Rightarrow> int" where
  "MonthFromTime t =
     (let d = DayWithinYear t; l = InLeapYear (YearFromTime t) in
      if d < 31 then 0 else if d < 59 + l then 1 else if d < 90 + l then 2
      else if d < 120 + l then 3 else if d < 151 + l then 4 else if d < 181 + l then 5
      else if d < 212 + l then 6 else if d < 243 + l then 7 else if d < 273 + l then 8
      else if d < 304 + l then 9 else if d < 334 + l then 10 else 11)"

definition DateFromTime :: "Date \<Rightarrow> int" where
  "DateFromTime t =
     DayWithinYear t - daysBeforeMonth (InLeapYear (YearFromTime t)) (MonthFromTime t) + 1"

definition HourFromTime :: "Date \<Rightarrow> int" where
  "HourFromTime t = (t div msPerHour) mod 24"

definition MinFromTime :: "Date \<Rightarrow> int" where
  "MinFromTime t = (t div msPerMinute) mod 60"

definition msFromTime :: "Date \<Rightarrow> int" where
  "msFromTime t = t mod msPerSecond"

text \<open>
  \<open>MakeDay(year, month, date)\<close>: the day number of the first day of the month (months
  outside 0 to 11 carry into the year), plus \<open>date - 1\<close>; a date outside the month runs
  into the neighbouring months.
\<close>

definition MakeDay :: "int \<Rightarrow> int \<Rightarrow> int \<Rightarrow> int" where
  "MakeDay year month date =
     (let ym = year + month div 12; mn = month mod 12
      in DayFromYear ym + daysBeforeMonth (InLeapYear ym) mn + date - 1)"

definition MakeTime :: "int \<Rightarrow> int \<Rightarrow> int \<Rightarrow> int \<Rightarrow> int" where
  "MakeTime hour minute sec ms = hour * msPerHour + minute * msPerMinute + sec * msPerSecond + ms"

definition MakeDate :: "int \<Rightarrow> int \<Rightarrow> Date" where
  "MakeDate day time = day * msPerDay + time"

text \<open>
  \<open>new Date(year, month, day, hours, minutes, seconds)\<close>; a year from 0 to 99 means
  1900 + year. \<open>new Date(year, month, day)\<close> is \<open>newDate year month day 0 0 0\<close>.
\<close>

definition newDate :: "int \<Rightarrow> int \<Rightarrow> int \<Rightarrow> int \<Rightarrow> int \<Rightarrow> int \<Rightarrow> Date" where
  "newDate year month day hours minutes seconds =
     MakeDate (MakeDay (if 0 \<le> year \<and> year \<le> 99 then 1900 + year else year) month day)
              (MakeTime hours minutes seconds 0)"

definition getFullYear :: "Date \<Rightarrow> int" where "getFullYear t = YearFromTime t"
definition getMonth :: "Date \<Rightarrow> int" where "getMonth t = MonthFromTime t"
definition getDate :: "Date \<Rightarrow> int" where "getDate t = DateFromTime t"
definition getHours :: "Date \<Rightarrow> int" where "getHours t = HourFromTime t"
definition getMinutes :: "Date \<Rightarrow> int" where "getMinutes t = MinFromTime t"
definition getTime :: "Date \<Rightarrow> int" where "getTime t = t"

text \<open>
  \<open>d.setHours(h, m, s)\<close> keeps the day and the milliseconds; \<open>d.setHours(h, m, s, ms)\<close>
  sets those too. \<open>d.setDate(dt)\<close> keeps the year, the month and the time within the day.
\<close>

definition setHours3 :: "Date \<Rightarrow> int \<Rightarrow> int \<Rightarrow> int \<Rightarrow> Date" where
  "setHours3 t h m s = MakeDate (Day t) (MakeTime h m s (msFromTime t))"

definition setHours4 :: "Date \<Rightarrow> int \<Rightarrow> int \<Rightarrow> int \<Rightarrow> int \<Rightarrow> Date" where
  "setHours4 t h m s ms = MakeDate (Day t) (MakeTime h m s ms)"

definition setDate :: "Date \<Rightarrow> int \<Rightarrow> Date" where
  "setDate t dt = MakeDate (MakeDay (YearFromTime t) (MonthFromTime t) dt) (TimeWithinDay t)"

section \<open>parseEventDateInfo\<close>

text \<open>
  The result \<open>{ start, end }\<close>; its fields are named after the variables \<open>startDate\<close> and
  \<open>endDate\<close> that the source returns in them. The clock reading \<open>new Date()\<close> at the top of
  the function is the parameter \<open>now\<close>. No operation of the function can raise: the
  matches \<open>timeMatches[0]\<close> and \<open>timeMatches[1]\<close> are read under the length tests only
  (the cases of \<open>detectTimes\<close>), and \<open>parseInt\<close> is applied to digits only.
\<close>

record DateInfo =
  startDate :: Date
  endDate :: Date

text \<open>The month table, in the order in which \<open>Object.entries\<close> lists it.\<close>

definition months :: "(string \<times> int) list" where
  "months =
     [(''jan'', 0), (''f'' @ [CHR 0xE9] @ ''v'', 1), (''fev'', 1), (''mar'', 2), (''avr'', 3),
      (''mai'', 4), (''juin'', 5), (''juil'', 6), (''ao'' @ [CHR 0xFB], 7), (''aout'', 7),
      (''sep'', 8), (''oct'', 9), (''nov'', 10), (''d'' @ [CHR 0xE9] @ ''c'', 11), (''dec'', 11)]"

text \<open>Step 1: the first entry of the table whose name occurs in the text, else the
  current month.\<close>

definition detectMonth :: "Date \<Rightarrow> string \<Rightarrow> int" where
  "detectMonth now cleanStr =
     (case find (\<lambda>(mName, mIdx). str_includes cleanStr mName) months of
        Some (mName, mIdx) \<Rightarrow> mIdx
      | None \<Rightarrow> getMonth now)"

text \<open>Step 2: the first bounded number 1 to 39 of the text with its times masked, else
  the day after the current day.\<close>

definition detectDay :: "Date \<Rightarrow> string \<Rightarrow> int" where
  "detectDay now cleanStr =
     (case findDay False (maskTimes cleanStr) of
        Some dayMatch \<Rightarrow> parseInt dayMatch
      | None \<Rightarrow> getDate now + 1)"

text \<open>The year: the next one when the month found lies before the current month.\<close>

definition detectYear :: "Date \<Rightarrow> int \<Rightarrow> int" where
  "detectYear now month =
     (let currentYear = getFullYear now; year = currentYear
      in if month < getMonth now \<and> year = currentYear then currentYear + 1 else year)"

text \<open>Step 3: \<open>(startHour, startMin, endHour, endMin)\<close>, from the defaults
  \<open>(9, 0, -1, 0)\<close>; an empty minute group counts as 0.\<close>

definition minuteOf :: "string \<Rightarrow> int" where
  "minuteOf minStr = (if minStr \<noteq> [] then parseInt minStr else 0)"

definition detectTimes :: "string \<Rightarrow> int \<times> int \<times> int \<times> int" where
  "detectTimes cleanStr =
     (case matchAllTime cleanStr of
        [] \<Rightarrow> (9, 0, -1, 0)
      | [m0] \<Rightarrow> (parseInt (fst m0), minuteOf (snd m0), -1, 0)
      | m0 # m1 # _ \<Rightarrow> (parseInt (fst m0), minuteOf (snd m0), parseInt (fst m1), minuteOf (snd m1)))"

definition parseEventDateInfo :: "Date \<Rightarrow> string \<Rightarrow> DateInfo" where
  "parseEventDateInfo now dateStr =
     (let cleanStr = toLowerCase dateStr;
          month = detectMonth now cleanStr;
          day = detectDay now cleanStr;
          year = detectYear now month
      in case detectTimes cleanStr of (startHour, startMin, endHour, endMin) \<Rightarrow>
         let startDate = newDate year month day startHour startMin 0;
             endDate0 = newDate year month day 0 0 0;
             endDate =
               (if endHour \<noteq> -1
                then (let endDate1 = setHours3 endDate0 endHour endMin 0
                      in if endDate1 < startDate then setDate endDate1 (getDate endDate1 + 1)
                         else endDate1)
                else setHours3 endDate0 (getHours startDate + 2) (getMinutes startDate) 0)
         in \<lparr> startDate = startDate, endDate = endDate \<rparr>)"

section \<open>Records, sessions and signatures\<close>

text \<open>
  The optional boolean fields (\<open>addedToCalendar?\<close>, \<open>read?\<close>) are \<^typ>\<open>bool option\<close>:
  \<open>None\<close> is the absent (\<open>undefined\<close>) field. \<open>truthy\<close> is the truth value JavaScript gives
  such a field in a condition, \<open>js_or\<close> is its \<open>||\<close>, which returns the left operand when
  that is truthy and the right operand otherwise.
\<close>

definition truthy :: "bool option \<Rightarrow> bool" where
  "truthy f = (f = Some True)"

definition js_or :: "bool option \<Rightarrow> bool option \<Rightarrow> bool option" where
  "js_or a b = (if truthy a then a else b)"

record EventItem =
  title :: string
  date :: string
  location :: string
  price :: string
  description :: string
  url :: string
  tags :: "string list"
  addedToCalendar :: "bool option"

datatype CriticalityLevel = HIGH | MEDIUM | LOW

datatype CategoryType = FRANCE_ADMIN | WORLD_MACRO | TECH_INNOVATION

text \<open>\<open>NewsItem\<close>; its \<open>date\<close> and \<open>url\<close> are \<open>news_date\<close> and \<open>news_url\<close> here.\<close>

record NewsItem =
  headline :: string
  news_date :: string
  category :: CategoryType
  criticality :: CriticalityLevel
  impact_analysis :: string
  suggested_action :: string
  source :: string
  news_url :: string
  read :: "bool option"

text \<open>
  \<open>ScanSession\<close>, once for both variants: \<open>id\<close> is \<open>session_id\<close>, and the payload field
  (\<open>events\<close> in the events variant, \<open>items\<close> in the news variant) is \<open>events\<close>. The type
  of the payload is a parameter: a list of records where the history is read, the parsed
  JSON value where a scan stores it.
\<close>

record 'p ScanSession =
  session_id :: int
  dateStr :: string
  events :: 'p

definition getEventSignature :: "EventItem \<Rightarrow> string" where
  "getEventSignature event =
     (let cleanTitle = stripNonAlnum (toLowerCase (title event));
          cleanDate = stripNonAlnum (toLowerCase (date event))
      in cleanTitle @ ''_'' @ cleanDate)"

definition getNewsSignature :: "NewsItem \<Rightarrow> string" where
  "getNewsSignature item = stripNonAlnum (toLowerCase (headline item))"

section \<open>The consolidated views\<close>

text \<open>
  A JavaScript \<open>Map\<close> keeps its keys in insertion order, and \<open>set\<close> on a present key
  replaces the value in place: an association list with distinct keys under
  \<^const>\<open>AList.update\<close>; \<open>get\<close> is \<^const>\<open>map_of\<close>, \<open>values()\<close> is \<open>map snd\<close>.

  The two merge loops are written once over the record interface they use (the
  signature \<open>sig\<close>, the flag \<open>flag\<close>, and \<open>setFlag f r\<close> for the copy \<open>{...r, flag: f}\<close>).
  \<open>Array.prototype.sort\<close> is stable, and so is \<^const>\<open>sort_key\<close>.
\<close>

definition masterEvents_step ::
  "('r \<Rightarrow> string) \<Rightarrow> ('r \<Rightarrow> bool option) \<Rightarrow> (bool option \<Rightarrow> 'r \<Rightarrow> 'r)
     \<Rightarrow> 'r \<Rightarrow> (string \<times> 'r) list \<Rightarrow> (string \<times> 'r) list" where
  "masterEvents_step sig flag setFlag evt uniqueMap =
     (let sg = sig evt in
      case map_of uniqueMap sg of
        Some existing \<Rightarrow> AList.update sg (setFlag (js_or (flag existing) (flag evt)) evt) uniqueMap
      | None \<Rightarrow> AList.update sg evt uniqueMap)"

definition masterEvents_uniqueMap ::
  "('r \<Rightarrow> string) \<Rightarrow> ('r \<Rightarrow> bool option) \<Rightarrow> (bool option \<Rightarrow> 'r \<Rightarrow> 'r)
     \<Rightarrow> 'r list ScanSession list \<Rightarrow> (string \<times> 'r) list" where
  "masterEvents_uniqueMap sig flag setFlag history =
     (let sortedHistory = sort_key session_id history
      in fold (\<lambda>session. fold (masterEvents_step sig flag setFlag) (events session))
           sortedHistory [])"

definition masterItems_step ::
  "('r \<Rightarrow> string) \<Rightarrow> ('r \<Rightarrow> bool option) \<Rightarrow> (bool option \<Rightarrow> 'r \<Rightarrow> 'r)
     \<Rightarrow> 'r \<Rightarrow> (string \<times> 'r) list \<Rightarrow> (string \<times> 'r) list" where
  "masterItems_step sig flag setFlag item uniqueMap =
     (let sg = sig item in
      case map_of uniqueMap sg of
        None \<Rightarrow> AList.update sg item uniqueMap
      | Some existing \<Rightarrow>
          if truthy (flag item) \<and> \<not> truthy (flag existing)
          then AList.update sg (setFlag (Some True) existing) uniqueMap
          else uniqueMap)"

definition masterItems_uniqueMap ::
  "('r \<Rightarrow> string) \<Rightarrow> ('r \<Rightarrow> bool option) \<Rightarrow> (bool option \<Rightarrow> 'r \<Rightarrow> 'r)
     \<Rightarrow> 'r list ScanSession list \<Rightarrow> (string \<times> 'r) list" where
  "masterItems_uniqueMap sig flag setFlag history =
     (let sortedHistory = sort_key (\<lambda>session. - session_id session) history
      in fold (\<lambda>session. fold (masterItems_step sig flag setFlag) (events session))
           sortedHistory [])"

definition setAddedToCalendar :: "bool option \<Rightarrow> EventItem \<Rightarrow> EventItem" where
  "setAddedToCalendar f e = e\<lparr>addedToCalendar := f\<rparr>"

definition setRead :: "bool option \<Rightarrow> NewsItem \<Rightarrow> NewsItem" where
  "setRead f i = i\<lparr>read := f\<rparr>"

text \<open>The sort key of the events view: the start instant parsed from the date text.\<close>

definition startTime :: "Date \<Rightarrow> EventItem \<Rightarrow> int" where
  "startTime now e = getTime (startDate (parseEventDateInfo now (date e)))"

text \<open>
  \<open>masterEvents\<close>. The clock is read once for the whole recomputation (\<open>now\<close>); with
  \<open>hidePastEvents\<close> the events that start before yesterday at midnight are dropped.
\<close>

definition masterEvents :: "Date \<Rightarrow> bool \<Rightarrow> EventItem list ScanSession list \<Rightarrow> EventItem list" where
  "masterEvents now hidePastEvents history =
     (let uniqueMap = masterEvents_uniqueMap getEventSignature addedToCalendar setAddedToCalendar history;
          allEvents = sort_key (startTime now) (map snd uniqueMap)
      in if hidePastEvents
         then (let midnight = setHours4 now 0 0 0 0;
                   yesterday = setDate midnight (getDate midnight - 1)
               in filter (\<lambda>e. startDate (parseEventDateInfo now (date e)) \<ge> yesterday) allEvents)
         else allEvents)"

definition masterItems :: "bool \<Rightarrow> NewsItem list ScanSession list \<Rightarrow> NewsItem list" where
  "masterItems onlyHighPriority history =
     (let uniqueMap = masterItems_uniqueMap getNewsSignature read setRead history;
          allItems = map snd uniqueMap
      in if onlyHighPriority then filter (\<lambda>i. criticality i = HIGH) allItems else allItems)"

section \<open>The global flag update\<close>

text \<open>\<open>updateEventGlobal\<close> and \<open>updateItemGlobal\<close>: the new history, which is both the
  new state and the value written to the store.\<close>

definition updateGlobal ::
  "('r \<Rightarrow> string) \<Rightarrow> (bool option \<Rightarrow> 'r \<Rightarrow> 'r)
     \<Rightarrow> 'r list ScanSession list \<Rightarrow> 'r \<Rightarrow> bool \<Rightarrow> 'r list ScanSession list" where
  "updateGlobal sig setFlag history event added =
     (let signature = sig event in
      map (\<lambda>session.
             let hasMatch = list_ex (\<lambda>e. sig e = signature) (events session) in
             if \<not> hasMatch then session
             else (let newEvents = map (\<lambda>e. if sig e = signature then setFlag (Some added) e else e)
                                       (events session)
                   in session\<lparr>events := newEvents\<rparr>))
          history)"

definition updateEventGlobal ::
  "EventItem list ScanSession list \<Rightarrow> EventItem \<Rightarrow> bool \<Rightarrow> EventItem list ScanSession list" where
  "updateEventGlobal history event added =
     updateGlobal getEventSignature setAddedToCalendar history event added"

definition updateItemGlobal ::
  "NewsItem list ScanSession list \<Rightarrow> NewsItem \<Rightarrow> bool \<Rightarrow> NewsItem list ScanSession list" where
  "updateItemGlobal history item read' = updateGlobal getNewsSignature setRead history item read'"

section \<open>Scanning\<close>

text \<open>
  The value \<open>JSON.parse\<close> returns. \<open>JSON.parse\<close> itself is a parameter of the scan,
  \<open>JSON_parse :: string \<Rightarrow> 'n json option\<close>, with \<open>None\<close> for the \<open>SyntaxError\<close> it throws;
  \<open>'n\<close> is the type of numbers.
\<close>

datatype 'n json =
    JNull
  | JBool bool
  | JNumber 'n
  | JString string
  | JArray "'n json list"
  | JObject "(string \<times> 'n json) list"

text \<open>
  \<open>parsedEvents.length > 0\<close>: \<open>None\<close> is the \<open>TypeError\<close> of reading a property of
  \<open>null\<close>. An array has its number of elements and a string its number of code units as
  \<open>length\<close>; a boolean or a number has none (\<open>undefined > 0\<close> is false); an object has
  the \<open>length\<close> property it was parsed with, compared by the parameter \<open>gt0\<close> (the
  coercing comparison \<open>v > 0\<close> of a JSON value).
\<close>

definition lengthGreaterZero :: "('n json \<Rightarrow> bool) \<Rightarrow> 'n json \<Rightarrow> bool option" where
  "lengthGreaterZero gt0 v =
     (case v of
        JNull \<Rightarrow> None
      | JBool b \<Rightarrow> Some False
      | JNumber n \<Rightarrow> Some False
      | JString s \<Rightarrow> Some (0 < length s)
      | JArray xs \<Rightarrow> Some (0 < length xs)
      | JObject kvs \<Rightarrow> (case map_of kvs ''length'' of None \<Rightarrow> Some False | Some l \<Rightarrow> Some (gt0 l)))"

text \<open>
  The two fence patterns, \<open>/```json\n([\s\S]*?)\n```/\<close> and \<open>/```([\s\S]*?)```/\<close>; the
  result is the captured group. The lazy group ends at the first closing fence after the
  opening one, and the leftmost opening fence decides: a closing fence for a later
  opening fence would close the first one too.
\<close>

definition fence :: string where
  "fence = replicate 3 (CHR 0x60)"

definition matchFenceJson :: "string \<Rightarrow> string option" where
  "matchFenceJson textResponse =
     (let i = indexOf textResponse (fence @ ''json'' @ [CHR 0x0A]) in
      if i = -1 then None
      else (let rest = drop (nat i + 8) textResponse;
                j = indexOf rest (CHR 0x0A # fence)
            in if j = -1 then None else Some (take (nat j) rest)))"

definition matchFence :: "string \<Rightarrow> string option" where
  "matchFence textResponse =
     (let i = indexOf textResponse fence in
      if i = -1 then None
      else (let rest = drop (nat i + 3) textResponse;
                j = indexOf rest fence
            in if j = -1 then None else Some (take (nat j) rest)))"

text \<open>\<open>s.lastIndexOf(c)\<close> for one code unit, and \<open>s.substring(a, b)\<close>, which clamps both
  indices to the string and swaps them when the first is the larger.\<close>

definition lastIndexOf :: "string \<Rightarrow> char \<Rightarrow> int" where
  "lastIndexOf s c =
     (let i = indexOf (rev s) [c] in if i = -1 then -1 else int (length s) - 1 - i)"

definition substring :: "string \<Rightarrow> int \<Rightarrow> int \<Rightarrow> string" where
  "substring s a b =
     (let n = int (length s);
          a' = max 0 (min a n); b' = max 0 (min b n);
          lo = min a' b'; hi = max a' b'
      in take (nat (hi - lo)) (drop (nat lo) s))"

text \<open>
  The errors a scan reports (\<open>setError\<close>): the generator call failed; the message
  for an invalid format; the \<open>SyntaxError\<close> of the second \<open>JSON.parse\<close>; the message
  for no event found; the \<open>TypeError\<close> of \<open>null.length\<close>. The generator's answer is either
  a failed call or a response whose \<open>text\<close> may be absent.
\<close>

datatype scan_error = GenerationFailed | InvalidFormat | JsonSyntaxError | NoEventsFound | TypeError

datatype response = CallFailed | Response "string option"

text \<open>The state a scan works on: the \<open>history\<close> (which is also what the store holds) and
  the \<open>error\<close> shown to the user.\<close>

record 'p AppState =
  stored_history :: "'p ScanSession list"
  reported_error :: "scan_error option"

text \<open>\<open>saveScanToHistory\<close>; \<open>toLocaleString\<close> (the label of the session) is a parameter.\<close>

definition saveScanToHistory ::
  "(Date \<Rightarrow> string) \<Rightarrow> Date \<Rightarrow> 'p \<Rightarrow> 'p ScanSession list \<Rightarrow> 'p ScanSession list" where
  "saveScanToHistory toLocaleString now newEvents history =
     (let newSession = \<lparr>session_id = getTime now, dateStr = toLocaleString now, events = newEvents\<rparr>
      in newSession # history)"

text \<open>
  \<open>scanEvents\<close> (and \<open>scanRadar\<close>, which differs in its prompt and messages only): the
  state after the scan, from the state before it and the generator's answer. The session
  stores the parsed value as it is.
\<close>

definition extractJson ::
  "(string \<Rightarrow> 'n json option) \<Rightarrow> string \<Rightarrow> scan_error + 'n json" where
  "extractJson JSON_parse textResponse =
     (let jsonMatch = (case matchFenceJson textResponse of
                         Some c \<Rightarrow> Some c
                       | None \<Rightarrow> matchFence textResponse);
          jsonString = (case jsonMatch of Some c \<Rightarrow> c | None \<Rightarrow> textResponse)
      in case JSON_parse jsonString of
           Some v \<Rightarrow> Inr v
         | None \<Rightarrow>
             (let arrayStart = indexOf textResponse ''['';
                  arrayEnd = lastIndexOf textResponse (CHR '']'')
              in if arrayStart \<noteq> -1 \<and> arrayEnd \<noteq> -1
                 then (case JSON_parse (substring textResponse arrayStart (arrayEnd + 1)) of
                         Some v \<Rightarrow> Inr v
                       | None \<Rightarrow> Inl JsonSyntaxError)
                 else Inl InvalidFormat))"

definition scanEvents ::
  "(string \<Rightarrow> 'n json option) \<Rightarrow> ('n json \<Rightarrow> bool) \<Rightarrow> (Date \<Rightarrow> string) \<Rightarrow> Date
     \<Rightarrow> response \<Rightarrow> 'n json AppState \<Rightarrow> 'n json AppState" where
  "scanEvents JSON_parse gt0 toLocaleString now resp st =
     (case resp of
        CallFailed \<Rightarrow> st\<lparr>reported_error := Some GenerationFailed\<rparr>
      | Response t \<Rightarrow>
          (let textResponse = (case t of Some x \<Rightarrow> x | None \<Rightarrow> [])
           in case extractJson JSON_parse textResponse of
                Inl e \<Rightarrow> st\<lparr>reported_error := Some e\<rparr>
              | Inr parsedEvents \<Rightarrow>
                  (case lengthGreaterZero gt0 parsedEvents of
                     None \<Rightarrow> st\<lparr>reported_error := Some TypeError\<rparr>
                   | Some True \<Rightarrow>
                       st\<lparr>stored_history :=
                            saveScanToHistory toLocaleString now parsedEvents (stored_history st),
                          reported_error := None\<rparr>
                   | Some False \<Rightarrow> st\<lparr>reported_error := Some NoEventsFound\<rparr>)))"

section \<open>Notions for stating the properties of the consolidated views\<close>

text \<open>
  \<open>allRecords\<close> lists the records of all sessions of a history. \<open>flagLens\<close> says that
  \<open>setFlag\<close> is the record copy with one field replaced, as \<open>{...r, flag: f}\<close> is: it sets
  the flag, changes nothing when it sets the flag the record has, and leaves the text
  the signature is computed from.
\<close>

definition flagLens :: "('r \<Rightarrow> string) \<Rightarrow> ('r \<Rightarrow> bool option) \<Rightarrow> (bool option \<Rightarrow> 'r \<Rightarrow> 'r) \<Rightarrow> bool" where
  "flagLens sig flag setFlag =
     ((\<forall>f r. flag (setFlag f r) = f) \<and> (\<forall>r. setFlag (flag r) r = r) \<and> (\<forall>f r. sig (setFlag f r) = sig r))"

definition allRecords :: "'r list ScanSession list \<Rightarrow> 'r list" where
  "allRecords history = concat (map events history)"

section \<open>Signatures\<close>

text \<open>
  The relation the signature claim speaks of: two texts differ only in letter case and in
  non-alphanumeric characters when their letters and digits (\<open>A-Z\<close>, \<open>a-z\<close>, \<open>0-9\<close>), read
  in order and without regard to case, are the same.
\<close>

definition isAlnum :: "char \<Rightarrow> bool" where
  "isAlnum c = (isDigit c \<or> (65 \<le> code c \<and> code c \<le> 90) \<or> (97 \<le> code c \<and> code c \<le> 122))"

definition sameUpToCaseAndPunctuation :: "string \<Rightarrow> string \<Rightarrow> bool" where
  "sameUpToCaseAndPunctuation s t =
     (map toLowerCase_char (filter isAlnum s) = map toLowerCase_char (filter isAlnum t))"

section \<open>Signatures: normalisation\<close>

lemma code_toLowerCase_char:
  "code (toLowerCase_char c) =
     (if (65 \<le> code c \<and> code c \<le> 90) \<or> (192 \<le> code c \<and> code c \<le> 222 \<and> code c \<noteq> 215)
      then code c + 32 else code c)"
  by (auto simp: toLowerCase_char_def code_def)

lemma isLowerAlnum_toLowerCase_char: "isLowerAlnum (toLowerCase_char c) = isAlnum c"
  by (auto simp: isLowerAlnum_def isAlnum_def isDigit_def code_toLowerCase_char)

lemma stripNonAlnum_toLowerCase:
  "stripNonAlnum (toLowerCase s) = map toLowerCase_char (filter isAlnum s)"
  by (induction s) (simp_all add: stripNonAlnum_def toLowerCase_def isLowerAlnum_toLowerCase_char)

text \<open>
  Claim C9. The signature is a function of the record's defining text and is invariant
  under normalisation: two events whose titles and whose dates differ only in letter case
  and in non-alphanumeric characters have the same signature, whatever their other fields
  are, and so have two news items whose headlines differ only so; in particular the
  titles \<open>Pitch Night!!\<close> and \<open>pitch night\<close> give equal signatures when the other defining
  field is the same.
\<close>

theorem signature_normalization:
  "getEventSignature r = getEventSignature r
   \<and> getNewsSignature n = getNewsSignature n
   \<and> (sameUpToCaseAndPunctuation (title a) (title b) \<and> sameUpToCaseAndPunctuation (date a) (date b)
        \<longrightarrow> getEventSignature a = getEventSignature b)
   \<and> (sameUpToCaseAndPunctuation (headline i) (headline j)
        \<longrightarrow> getNewsSignature i = getNewsSignature j)
   \<and> getEventSignature (r\<lparr>title := ''Pitch Night!!''\<rparr>) = getEventSignature (r\<lparr>title := ''pitch night''\<rparr>)
   \<and> getNewsSignature (n\<lparr>headline := ''Pitch Night!!''\<rparr>) = getNewsSignature (n\<lparr>headline := ''pitch night''\<rparr>)"
proof -
  have p: "stripNonAlnum (toLowerCase ''Pitch Night!!'') = stripNonAlnum (toLowerCase ''pitch night'')"
    by code_simp
  show ?thesis
    by (simp add: getEventSignature_def getNewsSignature_def stripNonAlnum_toLowerCase [symmetric]
        sameUpToCaseAndPunctuation_def p)
qed

theorem signature_normalization_witness:
  "sameUpToCaseAndPunctuation ''Salon de l'Etudiant'' ''SALON DE L ETUDIANT!''
   \<and> sameUpToCaseAndPunctuation ''Jeudi 24 Oct, 9h-18h'' ''jeudi 24 oct 9h 18h''
   \<and> getEventSignature
       \<lparr>title = ''Salon de l'Etudiant'', date = ''Jeudi 24 Oct, 9h-18h'', location = ''Paris'',
        price = ''Gratuit'', description = ''a'', url = ''u'', tags = [], addedToCalendar = Some True\<rparr>
     = getEventSignature
       \<lparr>title = ''SALON DE L ETUDIANT!'', date = ''jeudi 24 oct 9h 18h'', location = ''Lyon'',
        price = ''Payant'', description = ''b'', url = ''v'', tags = [''Tech''], addedToCalendar = None\<rparr>"
  (is "?p \<and> ?q \<and> getEventSignature ?a = getEventSignature ?b")
proof -
  have p: ?p by code_simp
  have q: ?q by code_simp
  from p q signature_normalization [of _ _ ?a ?b] show ?thesis by simp
qed

section \<open>The global flag update: idempotence and frame\<close>

lemma updateGlobal_twice:
  assumes sg: "\<And>f r. sig (setFlag f r) = sig r"
    and ss: "\<And>f r. setFlag f (setFlag f r) = setFlag f r"
  shows "updateGlobal sig setFlag (updateGlobal sig setFlag h e a) e a = updateGlobal sig setFlag h e a"
proof -
  have one: "map (\<lambda>x. if sig x = sig e then setFlag (Some a) x else x)
               (map (\<lambda>x. if sig x = sig e then setFlag (Some a) x else x) xs)
             = map (\<lambda>x. if sig x = sig e then setFlag (Some a) x else x) xs" for xs
    by (induction xs) (auto simp: sg ss)
  have ex: "list_ex (\<lambda>x. sig x = sig e) (map (\<lambda>x. if sig x = sig e then setFlag (Some a) x else x) xs)
            = list_ex (\<lambda>x. sig x = sig e) xs" for xs
    by (induction xs) (auto simp: sg)
  define g where "g = (\<lambda>x. if sig x = sig e then setFlag (Some a) x else x)"
  define upd where "upd = (\<lambda>session :: 'a list ScanSession.
      if \<not> list_ex (\<lambda>x. sig x = sig e) (events session) then session
      else session\<lparr>events := map g (events session)\<rparr>)"
  have u: "upd (upd s) = upd s" for s
    using one [of "events s"] ex [of "events s"] by (simp add: upd_def g_def)
  have m: "updateGlobal sig setFlag k e a = map upd k" for k
    by (simp add: updateGlobal_def Let_def upd_def g_def)
  have "map upd (map upd h) = map upd h"
    by (induction h) (simp_all add: u)
  then show ?thesis by (simp only: m)
qed

lemma updateGlobal_length: "length (updateGlobal sig setFlag h e a) = length h"
  by (simp add: updateGlobal_def Let_def)

lemma updateGlobal_nth:
  assumes "i < length h"
  shows "updateGlobal sig setFlag h e a ! i =
         (h ! i)\<lparr>events := map (\<lambda>x. if sig x = sig e then setFlag (Some a) x else x) (events (h ! i))\<rparr>"
proof -
  have id: "\<not> list_ex (\<lambda>x. sig x = sig e) xs \<Longrightarrow>
            map (\<lambda>x. if sig x = sig e then setFlag (Some a) x else x) xs = xs" for xs
    by (induction xs) auto
  show ?thesis using assms
    by (auto simp: updateGlobal_def Let_def id)
qed

text \<open>
  Claim C3. The signature-addressed global flag update is idempotent: for every history,
  every record and every flag value, updating twice with the same record and value gives
  the same history as updating once. This holds for \<open>updateEventGlobal\<close> and for
  \<open>updateItemGlobal\<close>.
\<close>

theorem updateEventGlobal_idempotent:
  "updateEventGlobal (updateEventGlobal history event added) event added
     = updateEventGlobal history event added
   \<and> updateItemGlobal (updateItemGlobal history' item read') item read'
     = updateItemGlobal history' item read'"
  unfolding updateEventGlobal_def updateItemGlobal_def
  by (intro conjI updateGlobal_twice)
     (simp_all add: getEventSignature_def getNewsSignature_def setAddedToCalendar_def setRead_def)


theorem updateEventGlobal_idempotent_witness:
  "updateEventGlobal (updateEventGlobal
      [\<lparr>session_id = 1, dateStr = ''lundi'', events =
          [\<lparr>title = ''Salon'', date = ''15 nov'', location = ''Paris'',
            price = ''Inconnu'', description = ''jour'', url = ''u2'', tags = [],
            addedToCalendar = None\<rparr>]\<rparr>]
      \<lparr>title = ''salon'', date = ''15 NOV'', location = [], price = [], description = [],
        url = [], tags = [], addedToCalendar = None\<rparr> True)
      \<lparr>title = ''salon'', date = ''15 NOV'', location = [], price = [], description = [],
        url = [], tags = [], addedToCalendar = None\<rparr> True
   = updateEventGlobal
      [\<lparr>session_id = 1, dateStr = ''lundi'', events =
          [\<lparr>title = ''Salon'', date = ''15 nov'', location = ''Paris'',
            price = ''Inconnu'', description = ''jour'', url = ''u2'', tags = [],
            addedToCalendar = None\<rparr>]\<rparr>]
      \<lparr>title = ''salon'', date = ''15 NOV'', location = [], price = [], description = [],
        url = [], tags = [], addedToCalendar = None\<rparr> True"
  using updateEventGlobal_idempotent [where history' = "[]"] by blast

lemma updateGlobal_frame:
  fixes h :: "'r list ScanSession list"
  shows "length (updateGlobal sig setFlag h e a) = length h
    \<and> map session_id (updateGlobal sig setFlag h e a) = map session_id h
    \<and> map dateStr (updateGlobal sig setFlag h e a) = map dateStr h
    \<and> (\<forall>i < length h.
          length (events (updateGlobal sig setFlag h e a ! i)) = length (events (h ! i))
          \<and> (\<forall>j < length (events (h ! i)).
                events (updateGlobal sig setFlag h e a ! i) ! j =
                  (if sig (events (h ! i) ! j) = sig e
                   then setFlag (Some a) (events (h ! i) ! j)
                   else events (h ! i) ! j)))"
proof -
  have ids: "map session_id (updateGlobal sig setFlag h e a) = map session_id h"
    by (induction h) (simp_all add: updateGlobal_def Let_def)
  have lbl: "map dateStr (updateGlobal sig setFlag h e a) = map dateStr h"
    by (induction h) (simp_all add: updateGlobal_def Let_def)
  show ?thesis
    by (simp add: updateGlobal_length ids lbl updateGlobal_nth)
qed

text \<open>
  Claim C4. The global flag update touches only the flags of matching records: the number
  of sessions, their identifiers, labels and order, and the number of records of each
  session are kept; a record whose signature differs from that of the given record is
  unchanged, and a record whose signature matches is the old record with only its flag
  overwritten by the new value. This holds for \<open>updateEventGlobal\<close> and for
  \<open>updateItemGlobal\<close>.
\<close>

theorem updateEventGlobal_frame:
  "length (updateEventGlobal history event added) = length history
   \<and> map session_id (updateEventGlobal history event added) = map session_id history
   \<and> map dateStr (updateEventGlobal history event added) = map dateStr history
   \<and> (\<forall>i < length history.
         length (events (updateEventGlobal history event added ! i)) = length (events (history ! i))
         \<and> (\<forall>j < length (events (history ! i)).
               events (updateEventGlobal history event added ! i) ! j =
                 (if getEventSignature (events (history ! i) ! j) = getEventSignature event
                  then (events (history ! i) ! j)\<lparr>addedToCalendar := Some added\<rparr>
                  else events (history ! i) ! j)))
   \<and> length (updateItemGlobal history' item read') = length history'
   \<and> map session_id (updateItemGlobal history' item read') = map session_id history'
   \<and> map dateStr (updateItemGlobal history' item read') = map dateStr history'
   \<and> (\<forall>i < length history'.
         length (events (updateItemGlobal history' item read' ! i)) = length (events (history' ! i))
         \<and> (\<forall>j < length (events (history' ! i)).
               events (updateItemGlobal history' item read' ! i) ! j =
                 (if getNewsSignature (events (history' ! i) ! j) = getNewsSignature item
                  then (events (history' ! i) ! j)\<lparr>read := Some read'\<rparr>
                  else events (history' ! i) ! j)))"
  using updateGlobal_frame [of getEventSignature setAddedToCalendar history event added]
        updateGlobal_frame [of getNewsSignature setRead history' item read']
  unfolding updateEventGlobal_def updateItemGlobal_def setAddedToCalendar_def setRead_def
  by blast

theorem updateEventGlobal_frame_witness:
  "events (updateEventGlobal
      [\<lparr>session_id = 2, dateStr = ''mardi'', events =
          [\<lparr>title = ''Pitch Night!!'', date = ''24 oct, 22h-02h'', location = ''Station F'',
            price = ''Gratuit'', description = ''soir'', url = ''u1'', tags = [''Tech''],
            addedToCalendar = None\<rparr>,
           \<lparr>title = ''Salon'', date = ''15 nov'', location = ''Paris'',
            price = ''Inconnu'', description = ''jour'', url = ''u2'', tags = [],
            addedToCalendar = Some False\<rparr>]\<rparr>]
      \<lparr>title = ''pitch night'', date = ''24 Oct 22h02h'', location = [],
        price = [], description = [], url = [], tags = [], addedToCalendar = None\<rparr>
      True ! 0)
   = [\<lparr>title = ''Pitch Night!!'', date = ''24 oct, 22h-02h'', location = ''Station F'',
            price = ''Gratuit'', description = ''soir'', url = ''u1'', tags = [''Tech''],
            addedToCalendar = Some True\<rparr>,
      \<lparr>title = ''Salon'', date = ''15 nov'', location = ''Paris'',
            price = ''Inconnu'', description = ''jour'', url = ''u2'', tags = [],
            addedToCalendar = Some False\<rparr>]"
  (is "events (updateEventGlobal ?H ?E True ! 0) = [?a, ?b]")
proof -
  let ?e1 = "events (?H ! 0) ! 0" and ?e2 = "events (?H ! 0) ! 1"
  have s1: "getEventSignature ?e1 = getEventSignature ?E" by code_simp
  have s2: "getEventSignature ?e2 \<noteq> getEventSignature ?E" by code_simp
  note t = updateEventGlobal_frame [of ?H ?E True "[]"]
  from t have all: "\<forall>i < length ?H.
         length (events (updateEventGlobal ?H ?E True ! i)) = length (events (?H ! i))
         \<and> (\<forall>j < length (events (?H ! i)).
               events (updateEventGlobal ?H ?E True ! i) ! j =
                 (if getEventSignature (events (?H ! i) ! j) = getEventSignature ?E
                  then (events (?H ! i) ! j)\<lparr>addedToCalendar := Some True\<rparr>
                  else events (?H ! i) ! j))"
    by blast
  have i0: "0 < length ?H" by simp
  from all i0 have len: "length (events (updateEventGlobal ?H ?E True ! 0)) = length (events (?H ! 0))"
    and nth: "\<forall>j < length (events (?H ! 0)).
               events (updateEventGlobal ?H ?E True ! 0) ! j =
                 (if getEventSignature (events (?H ! 0) ! j) = getEventSignature ?E
                  then (events (?H ! 0) ! j)\<lparr>addedToCalendar := Some True\<rparr>
                  else events (?H ! 0) ! j)"
    by blast+
  have j0: "0 < length (events (?H ! 0))" and j1: "1 < length (events (?H ! 0))" by simp_all
  from nth j0 have "events (updateEventGlobal ?H ?E True ! 0) ! 0 =
      (if getEventSignature ?e1 = getEventSignature ?E
       then ?e1\<lparr>addedToCalendar := Some True\<rparr> else ?e1)"
    by blast
  with s1 have a: "events (updateEventGlobal ?H ?E True ! 0) ! 0 = ?a"
    by simp
  from nth j1 have "events (updateEventGlobal ?H ?E True ! 0) ! 1 =
      (if getEventSignature ?e2 = getEventSignature ?E
       then ?e2\<lparr>addedToCalendar := Some True\<rparr> else ?e2)"
    by blast
  with s2 have b: "events (updateEventGlobal ?H ?E True ! 0) ! 1 = ?b"
    by simp
  from len have l2: "length (events (updateEventGlobal ?H ?E True ! 0)) = 2" by simp
  show ?thesis
    using a b l2 by (auto simp: list_eq_iff_nth_eq less_Suc_eq numeral_2_eq_2)
qed

section \<open>The consolidated views: flags, freshness, order\<close>

lemma flagLens_event: "flagLens getEventSignature addedToCalendar setAddedToCalendar"
  by (simp add: flagLens_def setAddedToCalendar_def getEventSignature_def)

lemma flagLens_news: "flagLens getNewsSignature read setRead"
  by (simp add: flagLens_def setRead_def getNewsSignature_def)

lemma fold_sessions:
  "fold (\<lambda>session. fold f (events session)) ss m = fold f (allRecords ss) m"
  by (induction ss arbitrary: m) (simp_all add: allRecords_def)

lemma truthy_js_or: "truthy (js_or a b) = (truthy a \<or> truthy b)"
  by (auto simp: js_or_def)

lemma truthy_foldl_js_or: "truthy (foldl js_or a fs) = (truthy a \<or> (\<exists>f \<in> set fs. truthy f))"
  by (induction fs arbitrary: a) (auto simp: truthy_js_or)

lemma foldl_js_or_value:
  "fs \<noteq> [] \<Longrightarrow> foldl js_or None fs = (if \<exists>f \<in> set fs. truthy f then Some True else last fs)"
proof (induction fs rule: rev_induct)
  case Nil
  then show ?case by simp
next
  case (snoc f fs)
  show ?case
  proof (cases "fs = []")
    case True
    then show ?thesis by (auto simp: js_or_def truthy_def)
  next
    case False
    with snoc have ih: "foldl js_or None fs = (if \<exists>f \<in> set fs. truthy f then Some True else last fs)"
      by simp
    have step: "foldl js_or None (fs @ [f]) = js_or (foldl js_or None fs) f" by simp
    show ?thesis
    proof (cases "\<exists>f \<in> set fs. truthy f")
      case True
      with ih have "foldl js_or None fs = Some True" by simp
      with True show ?thesis unfolding step by (simp add: js_or_def truthy_def)
    next
      case none: False
      from False have "last fs \<in> set fs" by simp
      with none have nl: "\<not> truthy (last fs)" by blast
      from none ih have "foldl js_or None fs = last fs" by simp
      with none nl show ?thesis unfolding step by (auto simp: js_or_def truthy_def)
    qed
  qed
qed

lemma map_of_masterEvents_step:
  "map_of (masterEvents_step sig flag setFlag e m) g =
     (if g = sig e
      then Some (case map_of m (sig e) of
                   Some existing \<Rightarrow> setFlag (js_or (flag existing) (flag e)) e
                 | None \<Rightarrow> e)
      else map_of m g)"
  by (simp add: masterEvents_step_def Let_def update_conv' split: option.splits)

lemma map_of_masterItems_step:
  "map_of (masterItems_step sig flag setFlag e m) g =
     (if g = sig e
      then Some (case map_of m (sig e) of
                   Some existing \<Rightarrow>
                     if truthy (flag e) \<and> \<not> truthy (flag existing) then setFlag (Some True) existing
                     else existing
                 | None \<Rightarrow> e)
      else map_of m g)"
  by (simp add: masterItems_step_def Let_def update_conv' split: option.splits)

lemma masterEvents_fold_char:
  assumes "flagLens sig flag setFlag"
  shows "map_of (fold (masterEvents_step sig flag setFlag) xs []) g =
     (let ys = filter (\<lambda>e. sig e = g) xs
      in if ys = [] then None else Some (setFlag (foldl js_or None (map flag ys)) (last ys)))"
proof (induction xs rule: rev_induct)
  case Nil
  then show ?case by simp
next
  case (snoc x xs)
  from assms have l1: "\<And>f r. flag (setFlag f r) = f" and l2: "\<And>r. setFlag (flag r) r = r"
    by (auto simp: flagLens_def)
  show ?case
  proof (cases "sig x = g")
    case False
    with snoc show ?thesis by (auto simp: map_of_masterEvents_step Let_def)
  next
    case True
    show ?thesis
    proof (cases "filter (\<lambda>e. sig e = g) xs = []")
      case True
      with \<open>sig x = g\<close> snoc show ?thesis
        by (simp add: map_of_masterEvents_step Let_def js_or_def truthy_def l2)
    next
      case False
      with \<open>sig x = g\<close> snoc show ?thesis
        by (simp add: map_of_masterEvents_step Let_def l1)
    qed
  qed
qed

lemma masterItems_fold_char:
  assumes "flagLens sig flag setFlag"
  shows "map_of (fold (masterItems_step sig flag setFlag) xs []) g =
     (case filter (\<lambda>e. sig e = g) xs of
        [] \<Rightarrow> None
      | y # ys \<Rightarrow> Some (if \<not> truthy (flag y) \<and> (\<exists>z \<in> set ys. truthy (flag z))
                        then setFlag (Some True) y else y))"
proof (induction xs rule: rev_induct)
  case Nil
  then show ?case by simp
next
  case (snoc x xs)
  from assms have l1: "\<And>f r. flag (setFlag f r) = f"
    by (auto simp: flagLens_def)
  show ?case
  proof (cases "sig x = g")
    case False
    with snoc show ?thesis by (auto simp: map_of_masterItems_step)
  next
    case True
    show ?thesis
    proof (cases "filter (\<lambda>e. sig e = g) xs")
      case Nil
      with \<open>sig x = g\<close> snoc show ?thesis
        by (simp add: map_of_masterItems_step)
    next
      case (Cons y ys)
      with \<open>sig x = g\<close> snoc show ?thesis
        by (auto simp: map_of_masterItems_step l1 truthy_def)
    qed
  qed
qed

lemma set_allRecords: "set (allRecords h) = (\<Union>s \<in> set h. set (events s))"
  by (simp add: allRecords_def)

lemma set_allRecords_sort_key [simp]: "set (allRecords (sort_key k h)) = set (allRecords h)"
  by (simp add: set_allRecords)

lemma distinct_fold_masterEvents_step:
  "distinct (map fst m) \<Longrightarrow> distinct (map fst (fold (masterEvents_step sig flag setFlag) xs m))"
  by (induction xs arbitrary: m)
     (auto simp: masterEvents_step_def Let_def distinct_update split: option.splits)

lemma distinct_fold_masterItems_step:
  "distinct (map fst m) \<Longrightarrow> distinct (map fst (fold (masterItems_step sig flag setFlag) xs m))"
  by (induction xs arbitrary: m)
     (auto simp: masterItems_step_def Let_def distinct_update split: option.splits)

lemma masterEvents_uniqueMap_char:
  assumes "flagLens sig flag setFlag"
  shows "map_of (masterEvents_uniqueMap sig flag setFlag h) g =
     (let ys = filter (\<lambda>e. sig e = g) (allRecords (sort_key session_id h))
      in if ys = [] then None else Some (setFlag (foldl js_or None (map flag ys)) (last ys)))"
  unfolding masterEvents_uniqueMap_def Let_def fold_sessions
  using masterEvents_fold_char [OF assms] by (simp add: Let_def)

lemma masterItems_uniqueMap_char:
  assumes "flagLens sig flag setFlag"
  shows "map_of (masterItems_uniqueMap sig flag setFlag h) g =
     (case filter (\<lambda>e. sig e = g) (allRecords (sort_key (\<lambda>s. - session_id s) h)) of
        [] \<Rightarrow> None
      | y # ys \<Rightarrow> Some (if \<not> truthy (flag y) \<and> (\<exists>z \<in> set ys. truthy (flag z))
                        then setFlag (Some True) y else y))"
  unfolding masterItems_uniqueMap_def Let_def fold_sessions
  using masterItems_fold_char [OF assms] by simp

lemma distinct_masterEvents_uniqueMap:
  "distinct (map fst (masterEvents_uniqueMap sig flag setFlag h))"
  unfolding masterEvents_uniqueMap_def Let_def fold_sessions
  by (rule distinct_fold_masterEvents_step) simp

lemma distinct_masterItems_uniqueMap:
  "distinct (map fst (masterItems_uniqueMap sig flag setFlag h))"
  unfolding masterItems_uniqueMap_def Let_def fold_sessions
  by (rule distinct_fold_masterItems_step) simp

text \<open>In a history sorted by ascending identifier, the last record with a property lies
  in a session that is newest among the sessions holding such a record; in a history
  sorted by descending identifier, the first one does.\<close>

lemma last_in_newest:
  assumes "sorted (map session_id ss)" and "filter P (allRecords ss) \<noteq> []"
  shows "\<exists>s \<in> set ss. last (filter P (allRecords ss)) \<in> set (events s)
           \<and> (\<forall>s' \<in> set ss. (\<exists>e \<in> set (events s'). P e) \<longrightarrow> session_id s' \<le> session_id s)"
  using assms
proof (induction ss rule: rev_induct)
  case Nil
  then show ?case by (simp add: allRecords_def)
next
  case (snoc s ss)
  have app: "filter P (allRecords (ss @ [s])) = filter P (allRecords ss) @ filter P (events s)"
    by (simp add: allRecords_def)
  from snoc.prems(1) have srt: "sorted (map session_id ss)"
    and le: "\<forall>s' \<in> set ss. session_id s' \<le> session_id s"
    by (auto simp: sorted_append)
  show ?case
  proof (cases "filter P (events s) = []")
    case False
    then have "last (filter P (allRecords (ss @ [s]))) = last (filter P (events s))"
      by (simp add: app)
    moreover from False have "last (filter P (events s)) \<in> set (filter P (events s))"
      by (rule last_in_set)
    ultimately have "last (filter P (allRecords (ss @ [s]))) \<in> set (events s)" by simp
    with le show ?thesis by auto
  next
    case True
    with snoc.prems(2) have ne: "filter P (allRecords ss) \<noteq> []" by (simp add: app)
    from True have none: "\<not> (\<exists>e \<in> set (events s). P e)"
      by (simp add: filter_empty_conv)
    from snoc.IH [OF srt ne] obtain t where t: "t \<in> set ss"
      "last (filter P (allRecords ss)) \<in> set (events t)"
      "\<forall>s' \<in> set ss. (\<exists>e \<in> set (events s'). P e) \<longrightarrow> session_id s' \<le> session_id t"
      by blast
    from True have "last (filter P (allRecords (ss @ [s]))) = last (filter P (allRecords ss))"
      by (simp add: app)
    with t none show ?thesis by auto
  qed
qed

lemma hd_in_newest:
  assumes "sorted (map (\<lambda>s. - session_id s) ss)" and "filter P (allRecords ss) \<noteq> []"
  shows "\<exists>s \<in> set ss. hd (filter P (allRecords ss)) \<in> set (events s)
           \<and> (\<forall>s' \<in> set ss. (\<exists>e \<in> set (events s'). P e) \<longrightarrow> session_id s' \<le> session_id s)"
  using assms
proof (induction ss)
  case Nil
  then show ?case by (simp add: allRecords_def)
next
  case (Cons s ss)
  have app: "filter P (allRecords (s # ss)) = filter P (events s) @ filter P (allRecords ss)"
    by (simp add: allRecords_def)
  from Cons.prems(1) have srt: "sorted (map (\<lambda>s. - session_id s) ss)"
    and le: "\<forall>s' \<in> set ss. session_id s' \<le> session_id s"
    by auto
  show ?case
  proof (cases "filter P (events s) = []")
    case False
    then have "hd (filter P (allRecords (s # ss))) = hd (filter P (events s))"
      by (simp add: app)
    moreover from False have "hd (filter P (events s)) \<in> set (filter P (events s))"
      by (rule hd_in_set)
    ultimately have "hd (filter P (allRecords (s # ss))) \<in> set (events s)" by simp
    with le show ?thesis by auto
  next
    case True
    with Cons.prems(2) have ne: "filter P (allRecords ss) \<noteq> []" by (simp add: app)
    from True have none: "\<not> (\<exists>e \<in> set (events s). P e)"
      by (simp add: filter_empty_conv)
    from Cons.IH [OF srt ne] obtain t where t: "t \<in> set ss"
      "hd (filter P (allRecords ss)) \<in> set (events t)"
      "\<forall>s' \<in> set ss. (\<exists>e \<in> set (events s'). P e) \<longrightarrow> session_id s' \<le> session_id t"
      by blast
    from True have "hd (filter P (allRecords (s # ss))) = hd (filter P (allRecords ss))"
      by (simp add: app)
    with t none show ?thesis by auto
  qed
qed

lemma masterEvents_entry:
  assumes lens: "flagLens sig flag setFlag"
    and m: "map_of (masterEvents_uniqueMap sig flag setFlag h) g = Some m"
  shows "sig m = g"
    and "truthy (flag m) = (\<exists>e \<in> set (allRecords h). sig e = g \<and> truthy (flag e))"
    and "\<exists>s \<in> set h. \<exists>e \<in> set (events s). sig e = g \<and> m = setFlag (flag m) e
           \<and> (\<forall>s' \<in> set h. (\<exists>e' \<in> set (events s'). sig e' = g) \<longrightarrow> session_id s' \<le> session_id s)"
proof -
  let ?ss = "sort_key session_id h"
  let ?ys = "filter (\<lambda>e. sig e = g) (allRecords ?ss)"
  from lens have l1: "\<And>f r. flag (setFlag f r) = f" and l3: "\<And>f r. sig (setFlag f r) = sig r"
    by (auto simp: flagLens_def)
  from m masterEvents_uniqueMap_char [OF lens, of h g]
  have ne: "?ys \<noteq> []" and mv: "m = setFlag (foldl js_or None (map flag ?ys)) (last ?ys)"
    by (auto simp: Let_def split: if_splits)
  from ne have "last ?ys \<in> set ?ys" by (rule last_in_set)
  then have sl: "sig (last ?ys) = g" by simp
  show "sig m = g" by (simp add: mv l3 sl)
  have fm: "flag m = foldl js_or None (map flag ?ys)" by (simp add: mv l1)
  show "truthy (flag m) = (\<exists>e \<in> set (allRecords h). sig e = g \<and> truthy (flag e))"
    unfolding fm truthy_foldl_js_or by (force simp: truthy_def)
  have "sorted (map session_id ?ss)" by (rule sorted_sort_key)
  from last_in_newest [OF this ne] obtain s where s: "s \<in> set ?ss" "last ?ys \<in> set (events s)"
    "\<forall>s' \<in> set ?ss. (\<exists>e \<in> set (events s'). sig e = g) \<longrightarrow> session_id s' \<le> session_id s"
    by blast
  have "m = setFlag (flag m) (last ?ys)" using mv fm by simp
  with s sl show "\<exists>s \<in> set h. \<exists>e \<in> set (events s). sig e = g \<and> m = setFlag (flag m) e
           \<and> (\<forall>s' \<in> set h. (\<exists>e' \<in> set (events s'). sig e' = g) \<longrightarrow> session_id s' \<le> session_id s)"
    by auto
qed

lemma masterItems_entry:
  assumes lens: "flagLens sig flag setFlag"
    and m: "map_of (masterItems_uniqueMap sig flag setFlag h) g = Some m"
  shows "sig m = g"
    and "truthy (flag m) = (\<exists>e \<in> set (allRecords h). sig e = g \<and> truthy (flag e))"
    and "\<exists>s \<in> set h. \<exists>e \<in> set (events s). sig e = g \<and> m = setFlag (flag m) e
           \<and> (\<forall>s' \<in> set h. (\<exists>e' \<in> set (events s'). sig e' = g) \<longrightarrow> session_id s' \<le> session_id s)"
proof -
  let ?ss = "sort_key (\<lambda>s. - session_id s) h"
  let ?ys = "filter (\<lambda>e. sig e = g) (allRecords ?ss)"
  from lens have l1: "\<And>f r. flag (setFlag f r) = f" and l2: "\<And>r. setFlag (flag r) r = r"
    and l3: "\<And>f r. sig (setFlag f r) = sig r"
    by (auto simp: flagLens_def)
  from m masterItems_uniqueMap_char [OF lens, of h g]
  obtain y ys where ys: "?ys = y # ys"
    and mv: "m = (if \<not> truthy (flag y) \<and> (\<exists>z \<in> set ys. truthy (flag z)) then setFlag (Some True) y else y)"
    by (auto split: list.splits)
  from ys have ne: "?ys \<noteq> []" and hd: "hd ?ys = y" by simp_all
  have "y \<in> set ?ys" by (simp add: ys)
  then have sy: "sig y = g" by simp
  show "sig m = g" by (simp add: mv l3 sy)
  have "set ?ys = {e \<in> set (allRecords h). sig e = g}" by auto
  then have st: "insert y (set ys) = {e \<in> set (allRecords h). sig e = g}" by (simp add: ys)
  have "truthy (flag m) = (\<exists>e \<in> insert y (set ys). truthy (flag e))"
    by (auto simp: mv l1 truthy_def)
  then show "truthy (flag m) = (\<exists>e \<in> set (allRecords h). sig e = g \<and> truthy (flag e))"
    unfolding st by auto
  have "sorted (map (\<lambda>s. - session_id s) ?ss)" by (rule sorted_sort_key)
  from hd_in_newest [OF this ne] obtain s where s: "s \<in> set ?ss" "hd ?ys \<in> set (events s)"
    "\<forall>s' \<in> set ?ss. (\<exists>e \<in> set (events s'). sig e = g) \<longrightarrow> session_id s' \<le> session_id s"
    by blast
  have "m = setFlag (flag m) y" by (simp add: mv l1 l2)
  with s sy hd show "\<exists>s \<in> set h. \<exists>e \<in> set (events s). sig e = g \<and> m = setFlag (flag m) e
           \<and> (\<forall>s' \<in> set h. (\<exists>e' \<in> set (events s'). sig e' = g) \<longrightarrow> session_id s' \<le> session_id s)"
    by auto
qed

lemma masterEvents_keys:
  assumes lens: "flagLens sig flag setFlag"
  shows "(map_of (masterEvents_uniqueMap sig flag setFlag h) g \<noteq> None) = (g \<in> sig ` set (allRecords h))"
  using masterEvents_uniqueMap_char [OF lens, of h g]
  by (auto simp: Let_def filter_empty_conv)

lemma masterItems_keys:
  assumes lens: "flagLens sig flag setFlag"
  shows "(map_of (masterItems_uniqueMap sig flag setFlag h) g \<noteq> None) = (g \<in> sig ` set (allRecords h))"
proof -
  have "(filter (\<lambda>e. sig e = g) (allRecords (sort_key (\<lambda>s. - session_id s) h)) \<noteq> [])
        = (g \<in> sig ` set (allRecords h))"
    by (auto simp: filter_empty_conv)
  with masterItems_uniqueMap_char [OF lens, of h g] show ?thesis
    by (auto split: list.splits)
qed

lemma values_iff:
  "distinct (map fst M) \<Longrightarrow> (m \<in> set (map snd M)) = (\<exists>g. map_of M g = Some m)"
  by (auto simp: image_iff) (metis map_of_eq_Some_iff snd_conv)+

lemma values_sig:
  assumes d: "distinct (map fst M)" and k: "\<And>g m. map_of M g = Some m \<Longrightarrow> sig m = g"
  shows "map sig (map snd M) = map fst M"
proof -
  have "\<forall>kv \<in> set M. sig (snd kv) = fst kv"
  proof
    fix kv assume "kv \<in> set M"
    then have "(fst kv, snd kv) \<in> set M" by simp
    with d have "map_of M (fst kv) = Some (snd kv)" by (simp only: map_of_eq_Some_iff)
    then show "sig (snd kv) = fst kv" by (rule k)
  qed
  then show ?thesis by (induction M) auto
qed

lemma masterEvents_view:
  "set (masterEvents now hide h)
     \<subseteq> snd ` set (masterEvents_uniqueMap getEventSignature addedToCalendar setAddedToCalendar h)"
  "set (masterEvents now False h)
     = snd ` set (masterEvents_uniqueMap getEventSignature addedToCalendar setAddedToCalendar h)"
  by (auto simp: masterEvents_def Let_def)

lemma masterItems_view:
  "set (masterItems high h) \<subseteq> snd ` set (masterItems_uniqueMap getNewsSignature read setRead h)"
  "set (masterItems False h) = snd ` set (masterItems_uniqueMap getNewsSignature read setRead h)"
  by (auto simp: masterItems_def Let_def)

lemma masterEvents_member:
  assumes "m \<in> set (masterEvents now hide h)"
  shows "map_of (masterEvents_uniqueMap getEventSignature addedToCalendar setAddedToCalendar h)
           (getEventSignature m) = Some m"
proof -
  let ?M = "masterEvents_uniqueMap getEventSignature addedToCalendar setAddedToCalendar h"
  from assms masterEvents_view(1) have "m \<in> set (map snd ?M)" by fastforce
  moreover have "distinct (map fst ?M)" by (rule distinct_masterEvents_uniqueMap)
  ultimately obtain g where g: "map_of ?M g = Some m"
    using values_iff [of ?M m] by blast
  from masterEvents_entry(1) [OF flagLens_event g] g show ?thesis by simp
qed

lemma masterItems_member:
  assumes "m \<in> set (masterItems high h)"
  shows "map_of (masterItems_uniqueMap getNewsSignature read setRead h) (getNewsSignature m) = Some m"
proof -
  let ?M = "masterItems_uniqueMap getNewsSignature read setRead h"
  from assms masterItems_view(1) have "m \<in> set (map snd ?M)" by fastforce
  moreover have "distinct (map fst ?M)" by (rule distinct_masterItems_uniqueMap)
  ultimately obtain g where g: "map_of ?M g = Some m"
    using values_iff [of ?M m] by blast
  from masterItems_entry(1) [OF flagLens_news g] g show ?thesis by simp
qed

lemma masterEvents_signatures:
  "getEventSignature ` set (masterEvents now False h) = getEventSignature ` set (allRecords h)"
proof -
  let ?M = "masterEvents_uniqueMap getEventSignature addedToCalendar setAddedToCalendar h"
  have "map getEventSignature (map snd ?M) = map fst ?M"
    by (rule values_sig [OF distinct_masterEvents_uniqueMap masterEvents_entry(1) [OF flagLens_event]])
  then have "getEventSignature ` set (masterEvents now False h) = fst ` set ?M"
    by (metis masterEvents_view(2) list.set_map)
  also have "\<dots> = {g. map_of ?M g \<noteq> None}"
    by (auto simp: map_of_eq_None_iff)
  also have "\<dots> = getEventSignature ` set (allRecords h)"
    using masterEvents_keys [OF flagLens_event] by blast
  finally show ?thesis .
qed

lemma masterItems_signatures:
  "getNewsSignature ` set (masterItems False h) = getNewsSignature ` set (allRecords h)"
proof -
  let ?M = "masterItems_uniqueMap getNewsSignature read setRead h"
  have "map getNewsSignature (map snd ?M) = map fst ?M"
    by (rule values_sig [OF distinct_masterItems_uniqueMap masterItems_entry(1) [OF flagLens_news]])
  then have "getNewsSignature ` set (masterItems False h) = fst ` set ?M"
    by (metis masterItems_view(2) list.set_map)
  also have "\<dots> = {g. map_of ?M g \<noteq> None}"
    by (auto simp: map_of_eq_None_iff)
  also have "\<dots> = getNewsSignature ` set (allRecords h)"
    using masterItems_keys [OF flagLens_news] by blast
  finally show ?thesis .
qed

lemma distinct_map_sort_key: "distinct (map f (sort_key k xs)) = distinct (map f xs)"
  by (metis distinct_map distinct_sort set_sort)

lemma masterEvents_distinct: "distinct (map getEventSignature (masterEvents now hide h))"
proof -
  let ?M = "masterEvents_uniqueMap getEventSignature addedToCalendar setAddedToCalendar h"
  have "map getEventSignature (map snd ?M) = map fst ?M"
    by (rule values_sig [OF distinct_masterEvents_uniqueMap masterEvents_entry(1) [OF flagLens_event]])
  then have "distinct (map getEventSignature (map snd ?M))"
    by (simp only: distinct_masterEvents_uniqueMap)
  then have "distinct (map getEventSignature (sort_key (startTime now) (map snd ?M)))"
    by (simp only: distinct_map_sort_key)
  then show ?thesis
    by (simp add: masterEvents_def Let_def distinct_map_filter)
qed

lemma masterItems_distinct: "distinct (map getNewsSignature (masterItems high h))"
proof -
  let ?M = "masterItems_uniqueMap getNewsSignature read setRead h"
  have "map getNewsSignature (map snd ?M) = map fst ?M"
    by (rule values_sig [OF distinct_masterItems_uniqueMap masterItems_entry(1) [OF flagLens_news]])
  then have "distinct (map getNewsSignature (map snd ?M))"
    by (simp only: distinct_masterItems_uniqueMap)
  then show ?thesis
    by (simp add: masterItems_def Let_def distinct_map_filter)
qed

text \<open>
  Claim C1. In the consolidated view the user-state flag of a record is the logical OR of
  that flag over all records of the history with the same signature, in whatever session
  the true flags sit: a record of the view has a true flag exactly when some record with
  its signature has one. Without the view's optional filter every signature of the
  history has its record in the view, and no two records of the view share a signature.
  This holds for the events view (\<open>masterEvents\<close>) and for the news view (\<open>masterItems\<close>).
\<close>

theorem consolidated_flag_is_or:
  "(\<forall>m \<in> set (masterEvents now hidePastEvents history).
       truthy (addedToCalendar m) =
         (\<exists>e \<in> set (allRecords history).
            getEventSignature e = getEventSignature m \<and> truthy (addedToCalendar e)))
   \<and> getEventSignature ` set (masterEvents now False history)
       = getEventSignature ` set (allRecords history)
   \<and> distinct (map getEventSignature (masterEvents now hidePastEvents history))
   \<and> (\<forall>m \<in> set (masterItems onlyHighPriority history').
       truthy (read m) =
         (\<exists>e \<in> set (allRecords history').
            getNewsSignature e = getNewsSignature m \<and> truthy (read e)))
   \<and> getNewsSignature ` set (masterItems False history')
       = getNewsSignature ` set (allRecords history')
   \<and> distinct (map getNewsSignature (masterItems onlyHighPriority history'))"
  using masterEvents_entry(2) [OF flagLens_event masterEvents_member]
        masterItems_entry(2) [OF flagLens_news masterItems_member]
  by (simp add: masterEvents_signatures masterItems_signatures masterEvents_distinct
        masterItems_distinct)

theorem consolidated_flag_is_or_witness:
  "let history =
     [\<lparr>session_id = 200, dateStr = ''mardi'', events =
         [\<lparr>title = ''PITCH NIGHT'', date = ''24 oct 22h-02h'', location = ''Station F'',
           price = ''Gratuit'', description = ''new text'', url = ''u1'', tags = [''Tech''],
           addedToCalendar = None\<rparr>]\<rparr>,
      \<lparr>session_id = 100, dateStr = ''lundi'', events =
         [\<lparr>title = ''Pitch Night!!'', date = ''24 Oct, 22h-02h'', location = ''Paris'',
           price = ''Inconnu'', description = ''old text'', url = ''u0'', tags = [],
           addedToCalendar = Some True\<rparr>,
          \<lparr>title = ''Salon'', date = ''15 nov'', location = ''Paris'',
           price = ''Inconnu'', description = ''jour'', url = ''u2'', tags = [],
           addedToCalendar = Some False\<rparr>]\<rparr>];
       view = masterEvents 1793613600000 False history
   in view ! 1 \<in> set view
      \<and> (\<exists>e \<in> set (allRecords history).
            getEventSignature e = getEventSignature (view ! 1) \<and> truthy (addedToCalendar e))
      \<and> truthy (addedToCalendar (view ! 1))"
  (is "let history = ?H; view = masterEvents ?N False history in ?P history view")
proof -
  let ?v = "masterEvents ?N False ?H"
  have mem: "?v ! 1 \<in> set ?v" by code_simp
  have ex: "\<exists>e \<in> set (allRecords ?H).
      getEventSignature e = getEventSignature (?v ! 1) \<and> truthy (addedToCalendar e)"
    by code_simp
  note t = consolidated_flag_is_or [of ?N False ?H]
  from t have "\<forall>m \<in> set ?v. truthy (addedToCalendar m) =
      (\<exists>e \<in> set (allRecords ?H).
          getEventSignature e = getEventSignature m \<and> truthy (addedToCalendar e))"
    by (rule conjunct1)
  from this mem have "truthy (addedToCalendar (?v ! 1)) =
      (\<exists>e \<in> set (allRecords ?H).
          getEventSignature e = getEventSignature (?v ! 1) \<and> truthy (addedToCalendar e))"
    by (rule bspec)
  from this ex have "truthy (addedToCalendar (?v ! 1))" by (rule iffD2)
  with mem ex show ?thesis unfolding Let_def by (intro conjI)
qed

lemma masterEvents_fresh_record:
  assumes s1: "s1 \<in> set h" and e1: "e1 \<in> set (events s1)"
  shows "\<exists>m \<in> set (masterEvents now False h).
           getEventSignature m = getEventSignature e1
           \<and> (\<exists>s \<in> set h. \<exists>e \<in> set (events s).
                 getEventSignature e = getEventSignature e1
                 \<and> m = e\<lparr>addedToCalendar := addedToCalendar m\<rparr>
                 \<and> session_id s1 \<le> session_id s
                 \<and> (\<forall>s' \<in> set h.
                       (\<exists>e' \<in> set (events s'). getEventSignature e' = getEventSignature e1)
                       \<longrightarrow> session_id s' \<le> session_id s))"
proof -
  from s1 e1 have "e1 \<in> set (allRecords h)" by (auto simp: set_allRecords)
  then have "getEventSignature e1 \<in> getEventSignature ` set (masterEvents now False h)"
    unfolding masterEvents_signatures by (rule imageI)
  then obtain m where m: "m \<in> set (masterEvents now False h)"
    and g: "getEventSignature m = getEventSignature e1" by auto
  from masterEvents_entry(3) [OF flagLens_event masterEvents_member [OF m]]
  obtain s e where se: "s \<in> set h" "e \<in> set (events s)"
      "getEventSignature e = getEventSignature m" "m = setAddedToCalendar (addedToCalendar m) e"
    and mx: "\<forall>s' \<in> set h. (\<exists>e' \<in> set (events s'). getEventSignature e' = getEventSignature m)
               \<longrightarrow> session_id s' \<le> session_id s"
    by blast
  from mx s1 e1 g have le: "session_id s1 \<le> session_id s" by auto
  from se(4) have eq: "m = e\<lparr>addedToCalendar := addedToCalendar m\<rparr>"
    by (simp only: setAddedToCalendar_def)
  show ?thesis
  proof (intro bexI conjI)
    show "m \<in> set (masterEvents now False h)" by (rule m)
    show "getEventSignature m = getEventSignature e1" by (rule g)
    show "s \<in> set h" by (rule se(1))
    show "e \<in> set (events s)" by (rule se(2))
    show "getEventSignature e = getEventSignature e1" using se(3) g by simp
    show "m = e\<lparr>addedToCalendar := addedToCalendar m\<rparr>" by (rule eq)
    show "session_id s1 \<le> session_id s" by (rule le)
    show "\<forall>s' \<in> set h. (\<exists>e' \<in> set (events s'). getEventSignature e' = getEventSignature e1)
               \<longrightarrow> session_id s' \<le> session_id s"
      using mx unfolding g .
  qed
qed

lemma masterItems_fresh_record:
  assumes s1: "s1 \<in> set h" and e1: "e1 \<in> set (events s1)"
  shows "\<exists>m \<in> set (masterItems False h).
           getNewsSignature m = getNewsSignature e1
           \<and> (\<exists>s \<in> set h. \<exists>e \<in> set (events s).
                 getNewsSignature e = getNewsSignature e1
                 \<and> m = e\<lparr>read := read m\<rparr>
                 \<and> session_id s1 \<le> session_id s
                 \<and> (\<forall>s' \<in> set h.
                       (\<exists>e' \<in> set (events s'). getNewsSignature e' = getNewsSignature e1)
                       \<longrightarrow> session_id s' \<le> session_id s))"
proof -
  from s1 e1 have "e1 \<in> set (allRecords h)" by (auto simp: set_allRecords)
  then have "getNewsSignature e1 \<in> getNewsSignature ` set (masterItems False h)"
    unfolding masterItems_signatures by (rule imageI)
  then obtain m where m: "m \<in> set (masterItems False h)"
    and g: "getNewsSignature m = getNewsSignature e1" by auto
  from masterItems_entry(3) [OF flagLens_news masterItems_member [OF m]]
  obtain s e where se: "s \<in> set h" "e \<in> set (events s)"
      "getNewsSignature e = getNewsSignature m" "m = setRead (read m) e"
    and mx: "\<forall>s' \<in> set h. (\<exists>e' \<in> set (events s'). getNewsSignature e' = getNewsSignature m)
               \<longrightarrow> session_id s' \<le> session_id s"
    by blast
  from mx s1 e1 g have le: "session_id s1 \<le> session_id s" by auto
  from se(4) have eq: "m = e\<lparr>read := read m\<rparr>"
    by (simp only: setRead_def)
  show ?thesis
  proof (intro bexI conjI)
    show "m \<in> set (masterItems False h)" by (rule m)
    show "getNewsSignature m = getNewsSignature e1" by (rule g)
    show "s \<in> set h" by (rule se(1))
    show "e \<in> set (events s)" by (rule se(2))
    show "getNewsSignature e = getNewsSignature e1" using se(3) g by simp
    show "m = e\<lparr>read := read m\<rparr>" by (rule eq)
    show "session_id s1 \<le> session_id s" by (rule le)
    show "\<forall>s' \<in> set h. (\<exists>e' \<in> set (events s'). getNewsSignature e' = getNewsSignature e1)
               \<longrightarrow> session_id s' \<le> session_id s"
      using mx unfolding g .
  qed
qed

lemma masterEvents_content:
  "\<forall>m \<in> set (masterEvents now hidePastEvents history).
       \<exists>s \<in> set history. \<exists>e \<in> set (events s).
          getEventSignature e = getEventSignature m
          \<and> m = e\<lparr>addedToCalendar := addedToCalendar m\<rparr>
          \<and> (\<forall>s' \<in> set history.
                (\<exists>e' \<in> set (events s'). getEventSignature e' = getEventSignature m)
                \<longrightarrow> session_id s' \<le> session_id s)"
  using masterEvents_entry(3) [OF flagLens_event masterEvents_member]
  unfolding setAddedToCalendar_def
  by blast

lemma masterItems_content:
  "\<forall>m \<in> set (masterItems onlyHighPriority history').
       \<exists>s \<in> set history'. \<exists>e \<in> set (events s).
          getNewsSignature e = getNewsSignature m
          \<and> m = e\<lparr>read := read m\<rparr>
          \<and> (\<forall>s' \<in> set history'.
                (\<exists>e' \<in> set (events s'). getNewsSignature e' = getNewsSignature m)
                \<longrightarrow> session_id s' \<le> session_id s)"
  using masterItems_entry(3) [OF flagLens_news masterItems_member]
  unfolding setRead_def
  by blast

lemma masterEvents_hidePast:
  "masterEvents now True history
     = filter (\<lambda>e. setDate (setHours4 now 0 0 0 0) (getDate (setHours4 now 0 0 0 0) - 1)
                     \<le> startDate (parseEventDateInfo now (date e)))
         (masterEvents now False history)"
  by (simp add: masterEvents_def Let_def)

lemma masterItems_onlyHigh:
  "masterItems True history' = filter (\<lambda>i. criticality i = HIGH) (masterItems False history')"
  by (simp add: masterItems_def Let_def)

text \<open>
  Claim C2. Freshness precedence. Every record of a session of the history has its
  consolidated record in the view (taken without the view's filter): a record with the
  same signature, and no two records of a view share a signature. That consolidated
  record carries the content (every field but the user-state flag) of a record with this
  signature from a session whose identifier is the largest among the sessions that hold
  a record with this signature; so of two sessions with the same signature and different
  text, the one with the larger identifier gives the content. The records of a filtered
  view carry their content from such a session too, and the filtered view is the view
  without the filter, filtered. This holds for the events view and for the news view.
\<close>

theorem freshness_precedence:
  "(\<forall>s1 \<in> set history. \<forall>e1 \<in> set (events s1).
       \<exists>m \<in> set (masterEvents now False history).
          getEventSignature m = getEventSignature e1
          \<and> (\<exists>s \<in> set history. \<exists>e \<in> set (events s).
                getEventSignature e = getEventSignature e1
                \<and> m = e\<lparr>addedToCalendar := addedToCalendar m\<rparr>
                \<and> session_id s1 \<le> session_id s
                \<and> (\<forall>s' \<in> set history.
                      (\<exists>e' \<in> set (events s'). getEventSignature e' = getEventSignature e1)
                      \<longrightarrow> session_id s' \<le> session_id s)))
   \<and> (\<forall>s1 \<in> set history'. \<forall>e1 \<in> set (events s1).
       \<exists>m \<in> set (masterItems False history').
          getNewsSignature m = getNewsSignature e1
          \<and> (\<exists>s \<in> set history'. \<exists>e \<in> set (events s).
                getNewsSignature e = getNewsSignature e1
                \<and> m = e\<lparr>read := read m\<rparr>
                \<and> session_id s1 \<le> session_id s
                \<and> (\<forall>s' \<in> set history'.
                      (\<exists>e' \<in> set (events s'). getNewsSignature e' = getNewsSignature e1)
                      \<longrightarrow> session_id s' \<le> session_id s)))
   \<and> (\<forall>m \<in> set (masterEvents now hidePastEvents history).
       \<exists>s \<in> set history. \<exists>e \<in> set (events s).
          getEventSignature e = getEventSignature m
          \<and> m = e\<lparr>addedToCalendar := addedToCalendar m\<rparr>
          \<and> (\<forall>s' \<in> set history.
                (\<exists>e' \<in> set (events s'). getEventSignature e' = getEventSignature m)
                \<longrightarrow> session_id s' \<le> session_id s))
   \<and> (\<forall>m \<in> set (masterItems onlyHighPriority history').
       \<exists>s \<in> set history'. \<exists>e \<in> set (events s).
          getNewsSignature e = getNewsSignature m
          \<and> m = e\<lparr>read := read m\<rparr>
          \<and> (\<forall>s' \<in> set history'.
                (\<exists>e' \<in> set (events s'). getNewsSignature e' = getNewsSignature m)
                \<longrightarrow> session_id s' \<le> session_id s))
   \<and> distinct (map getEventSignature (masterEvents now hidePastEvents history))
   \<and> distinct (map getNewsSignature (masterItems onlyHighPriority history'))
   \<and> masterEvents now True history
       = filter (\<lambda>e. setDate (setHours4 now 0 0 0 0) (getDate (setHours4 now 0 0 0 0) - 1)
                       \<le> startDate (parseEventDateInfo now (date e)))
           (masterEvents now False history)
   \<and> masterItems True history'
       = filter (\<lambda>i. criticality i = HIGH) (masterItems False history')"
proof (intro conjI ballI)
  fix s1 e1 assume "s1 \<in> set history" "e1 \<in> set (events s1)"
  then show "\<exists>m \<in> set (masterEvents now False history).
          getEventSignature m = getEventSignature e1
          \<and> (\<exists>s \<in> set history. \<exists>e \<in> set (events s).
                getEventSignature e = getEventSignature e1
                \<and> m = e\<lparr>addedToCalendar := addedToCalendar m\<rparr>
                \<and> session_id s1 \<le> session_id s
                \<and> (\<forall>s' \<in> set history.
                      (\<exists>e' \<in> set (events s'). getEventSignature e' = getEventSignature e1)
                      \<longrightarrow> session_id s' \<le> session_id s))"
    by (rule masterEvents_fresh_record)
next
  fix s1 e1 assume "s1 \<in> set history'" "e1 \<in> set (events s1)"
  then show "\<exists>m \<in> set (masterItems False history').
          getNewsSignature m = getNewsSignature e1
          \<and> (\<exists>s \<in> set history'. \<exists>e \<in> set (events s).
                getNewsSignature e = getNewsSignature e1
                \<and> m = e\<lparr>read := read m\<rparr>
                \<and> session_id s1 \<le> session_id s
                \<and> (\<forall>s' \<in> set history'.
                      (\<exists>e' \<in> set (events s'). getNewsSignature e' = getNewsSignature e1)
                      \<longrightarrow> session_id s' \<le> session_id s))"
    by (rule masterItems_fresh_record)
next
  fix m assume "m \<in> set (masterEvents now hidePastEvents history)"
  with masterEvents_content show "\<exists>s \<in> set history. \<exists>e \<in> set (events s).
          getEventSignature e = getEventSignature m
          \<and> m = e\<lparr>addedToCalendar := addedToCalendar m\<rparr>
          \<and> (\<forall>s' \<in> set history.
                (\<exists>e' \<in> set (events s'). getEventSignature e' = getEventSignature m)
                \<longrightarrow> session_id s' \<le> session_id s)"
    by (rule bspec)
next
  fix m assume "m \<in> set (masterItems onlyHighPriority history')"
  with masterItems_content show "\<exists>s \<in> set history'. \<exists>e \<in> set (events s).
          getNewsSignature e = getNewsSignature m
          \<and> m = e\<lparr>read := read m\<rparr>
          \<and> (\<forall>s' \<in> set history'.
                (\<exists>e' \<in> set (events s'). getNewsSignature e' = getNewsSignature m)
                \<longrightarrow> session_id s' \<le> session_id s)"
    by (rule bspec)
next
  show "distinct (map getEventSignature (masterEvents now hidePastEvents history))"
    by (rule masterEvents_distinct)
  show "distinct (map getNewsSignature (masterItems onlyHighPriority history'))"
    by (rule masterItems_distinct)
  show "masterEvents now True history
       = filter (\<lambda>e. setDate (setHours4 now 0 0 0 0) (getDate (setHours4 now 0 0 0 0) - 1)
                       \<le> startDate (parseEventDateInfo now (date e)))
           (masterEvents now False history)"
    by (rule masterEvents_hidePast)
  show "masterItems True history'
       = filter (\<lambda>i. criticality i = HIGH) (masterItems False history')"
    by (rule masterItems_onlyHigh)
qed

theorem freshness_precedence_witness:
  "let history =
     [\<lparr>session_id = 200, dateStr = ''mardi'', events =
         [\<lparr>title = ''PITCH NIGHT'', date = ''24 oct 22h-02h'', location = ''Station F'',
           price = ''Gratuit'', description = ''new text'', url = ''u1'', tags = [''Tech''],
           addedToCalendar = None\<rparr>]\<rparr>,
      \<lparr>session_id = 100, dateStr = ''lundi'', events =
         [\<lparr>title = ''Pitch Night!!'', date = ''24 Oct, 22h-02h'', location = ''Paris'',
           price = ''Inconnu'', description = ''old text'', url = ''u0'', tags = [],
           addedToCalendar = Some True\<rparr>]\<rparr>];
       items =
     [\<lparr>session_id = 100, dateStr = ''lundi'', events =
         [\<lparr>headline = ''Taux BCE: hausse!'', news_date = ''2024-10-21'', category = WORLD_MACRO,
           criticality = MEDIUM, impact_analysis = ''old analysis'', suggested_action = ''wait'',
           source = ''s0'', news_url = ''u0'', read = Some True\<rparr>]\<rparr>,
      \<lparr>session_id = 200, dateStr = ''mardi'', events =
         [\<lparr>headline = ''TAUX BCE : HAUSSE'', news_date = ''2024-10-22'', category = WORLD_MACRO,
           criticality = HIGH, impact_analysis = ''new analysis'', suggested_action = ''act'',
           source = ''s1'', news_url = ''u1'', read = None\<rparr>]\<rparr>]
   in history ! 1 \<in> set history
      \<and> hd (events (history ! 1)) \<in> set (events (history ! 1))
      \<and> map description (masterEvents 1793613600000 False history) = [''new text'']
      \<and> (\<exists>m \<in> set (masterEvents 1793613600000 False history).
            getEventSignature m = getEventSignature (hd (events (history ! 1)))
            \<and> (\<exists>s \<in> set history. \<exists>e \<in> set (events s).
                  getEventSignature e = getEventSignature (hd (events (history ! 1)))
                  \<and> m = e\<lparr>addedToCalendar := addedToCalendar m\<rparr>
                  \<and> session_id (history ! 1) \<le> session_id s
                  \<and> (\<forall>s' \<in> set history.
                        (\<exists>e' \<in> set (events s').
                            getEventSignature e' = getEventSignature (hd (events (history ! 1))))
                        \<longrightarrow> session_id s' \<le> session_id s)))
      \<and> items ! 0 \<in> set items
      \<and> hd (events (items ! 0)) \<in> set (events (items ! 0))
      \<and> map impact_analysis (masterItems False items) = [''new analysis'']
      \<and> (\<exists>m \<in> set (masterItems False items).
            getNewsSignature m = getNewsSignature (hd (events (items ! 0)))
            \<and> (\<exists>s \<in> set items. \<exists>e \<in> set (events s).
                  getNewsSignature e = getNewsSignature (hd (events (items ! 0)))
                  \<and> m = e\<lparr>read := read m\<rparr>
                  \<and> session_id (items ! 0) \<le> session_id s
                  \<and> (\<forall>s' \<in> set items.
                        (\<exists>e' \<in> set (events s').
                            getNewsSignature e' = getNewsSignature (hd (events (items ! 0))))
                        \<longrightarrow> session_id s' \<le> session_id s)))"
  (is "let history = ?H; items = ?I in ?P history items")
proof -
  let ?N = "1793613600000 :: int"
  have s1: "?H ! 1 \<in> set ?H" by simp
  have e1: "hd (events (?H ! 1)) \<in> set (events (?H ! 1))" by simp
  have d: "map description (masterEvents ?N False ?H) = [''new text'']" by code_simp
  have s2: "?I ! 0 \<in> set ?I" by simp
  have e2: "hd (events (?I ! 0)) \<in> set (events (?I ! 0))" by simp
  have a: "map impact_analysis (masterItems False ?I) = [''new analysis'']" by code_simp
  note t = freshness_precedence [where history = "?H" and now = "?N" and history' = "?I"]
  note ev = bspec [OF bspec [OF conjunct1 [OF t] s1] e1]
  note nw = bspec [OF bspec [OF conjunct1 [OF conjunct2 [OF t]] s2] e2]
  from s1 e1 d ev s2 e2 a nw show ?thesis unfolding Let_def by (intro conjI)
qed



section \<open>The two merge variants compared\<close>

lemma sort_key_neg_rev:
  fixes f :: "'a \<Rightarrow> int"
  assumes d: "distinct (map f xs)"
  shows "sort_key (\<lambda>x. - f x) xs = rev (sort_key f xs)"
proof -
  let ?k = "\<lambda>x. - f x"
  let ?a = "sort_key ?k xs" and ?b = "rev (sort_key f xs)"
  have inj: "inj_on ?k (set xs)"
    using d by (auto simp: distinct_map inj_on_def)
  have sa: "sorted (map ?k ?a)" by (rule sorted_sort_key)
  have "sorted (map f (sort_key f xs))" by (rule sorted_sort_key)
  then have sb: "sorted (map ?k ?b)"
    by (simp add: rev_map [symmetric] sorted_wrt_rev sorted_wrt_map)
  have da: "distinct (map ?k ?a)"
    using d inj by (simp add: distinct_map)
  have db: "distinct (map ?k ?b)"
    using d inj by (simp add: distinct_map)
  have "set (map ?k ?a) = set (map ?k ?b)" by simp
  with sa da sb db have "map ?k ?a = map ?k ?b"
    by (rule sorted_distinct_set_unique)
  moreover have "inj_on ?k (set ?a \<union> set ?b)" using inj by simp
  ultimately show ?thesis by (simp only: inj_on_map_eq_map)
qed

lemma filter_key_le_1:
  "distinct (map f xs) \<Longrightarrow> length (filter (\<lambda>x. f x = g) xs) \<le> 1"
proof (induction xs)
  case Nil
  then show ?case by simp
next
  case (Cons x xs)
  show ?case
  proof (cases "f x = g")
    case True
    from Cons.prems have "f x \<notin> f ` set xs" by simp
    with True have "\<forall>y \<in> set xs. f y \<noteq> g" by (metis imageI)
    then have "filter (\<lambda>x. f x = g) xs = []" by (simp add: filter_empty_conv)
    with True show ?thesis by simp
  next
    case False
    with Cons show ?thesis by simp
  qed
qed

lemma rev_short: "length xs \<le> 1 \<Longrightarrow> rev xs = xs"
  by (cases xs) auto

lemma filter_allRecords_rev:
  assumes "\<forall>s \<in> set ss. length (filter P (events s)) \<le> 1"
  shows "filter P (allRecords (rev ss)) = rev (filter P (allRecords ss))"
  using assms
  by (induction ss) (simp_all add: allRecords_def rev_short)

lemma merge_variants_agree_generic:
  assumes lens: "flagLens sig flag setFlag"
    and ids: "distinct (map session_id h)"
    and uniq: "\<forall>s \<in> set h. distinct (map sig (events s))"
  shows "map_of (masterEvents_uniqueMap sig flag setFlag h) g
       = map_of (masterItems_uniqueMap sig flag setFlag h) g"
proof -
  let ?asc = "sort_key session_id h"
  let ?ys = "filter (\<lambda>e. sig e = g) (allRecords ?asc)"
  from lens have l1: "\<And>f r. flag (setFlag f r) = f" and l2: "\<And>r. setFlag (flag r) r = r"
    by (auto simp: flagLens_def)
  have "\<forall>s \<in> set ?asc. length (filter (\<lambda>e. sig e = g) (events s)) \<le> 1"
    using uniq filter_key_le_1 [of sig _ g] by simp
  then have desc: "filter (\<lambda>e. sig e = g) (allRecords (sort_key (\<lambda>s. - session_id s) h)) = rev ?ys"
    by (simp only: sort_key_neg_rev [OF ids] filter_allRecords_rev)
  show ?thesis
  proof (cases "?ys = []")
    case True
    then show ?thesis
      by (simp add: masterEvents_uniqueMap_char [OF lens] masterItems_uniqueMap_char [OF lens] desc)
  next
    case False
    then obtain zs y where ys: "?ys = zs @ [y]" by (metis rev_exhaust)
    have ev: "map_of (masterEvents_uniqueMap sig flag setFlag h) g
        = Some (setFlag (foldl js_or None (map flag ?ys)) y)"
      using False by (simp add: masterEvents_uniqueMap_char [OF lens] Let_def ys)
    have it: "map_of (masterItems_uniqueMap sig flag setFlag h) g
        = Some (if \<not> truthy (flag y) \<and> (\<exists>z \<in> set zs. truthy (flag z))
                then setFlag (Some True) y else y)"
      by (simp add: masterItems_uniqueMap_char [OF lens] desc ys)
    have "foldl js_or None (map flag (zs @ [y]))
        = (if \<exists>f \<in> set (map flag (zs @ [y])). truthy f then Some True else last (map flag (zs @ [y])))"
      by (rule foldl_js_or_value) simp
    then have fv: "foldl js_or None (map flag ?ys)
        = (if truthy (flag y) \<or> (\<exists>z \<in> set zs. truthy (flag z)) then Some True else flag y)"
      unfolding ys by auto
    have "setFlag (foldl js_or None (map flag ?ys)) y
        = (if \<not> truthy (flag y) \<and> (\<exists>z \<in> set zs. truthy (flag z)) then setFlag (Some True) y else y)"
    proof (cases "truthy (flag y)")
      case True
      then have "flag y = Some True" by (simp add: truthy_def)
      with True l2 [of y] show ?thesis unfolding fv by simp
    next
      case False
      with l2 [of y] show ?thesis unfolding fv by simp
    qed
    with ev it show ?thesis by simp
  qed
qed

text \<open>
  Claim C10, as stated, fails: the events variant keeps the last record of a signature
  and the news variant the first. So one session that holds two records with the same
  signature and different text gives two different results, and so do two sessions with
  the same identifier.
\<close>

theorem merge_variants_differ:
  "map_of (masterEvents_uniqueMap getEventSignature addedToCalendar setAddedToCalendar
      [\<lparr>session_id = 100, dateStr = ''lundi'', events =
         [\<lparr>title = ''Pitch Night!!'', date = ''24 oct'', location = ''Paris'',
           price = ''Inconnu'', description = ''first'', url = ''u0'', tags = [],
           addedToCalendar = None\<rparr>,
          \<lparr>title = ''pitch night'', date = ''24 oct'', location = ''Paris'',
           price = ''Inconnu'', description = ''second'', url = ''u0'', tags = [],
           addedToCalendar = None\<rparr>]\<rparr>]) ''pitchnight_24oct''
   = Some \<lparr>title = ''pitch night'', date = ''24 oct'', location = ''Paris'',
           price = ''Inconnu'', description = ''second'', url = ''u0'', tags = [],
           addedToCalendar = None\<rparr>
   \<and> map_of (masterItems_uniqueMap getEventSignature addedToCalendar setAddedToCalendar
      [\<lparr>session_id = 100, dateStr = ''lundi'', events =
         [\<lparr>title = ''Pitch Night!!'', date = ''24 oct'', location = ''Paris'',
           price = ''Inconnu'', description = ''first'', url = ''u0'', tags = [],
           addedToCalendar = None\<rparr>,
          \<lparr>title = ''pitch night'', date = ''24 oct'', location = ''Paris'',
           price = ''Inconnu'', description = ''second'', url = ''u0'', tags = [],
           addedToCalendar = None\<rparr>]\<rparr>]) ''pitchnight_24oct''
   = Some \<lparr>title = ''Pitch Night!!'', date = ''24 oct'', location = ''Paris'',
           price = ''Inconnu'', description = ''first'', url = ''u0'', tags = [],
           addedToCalendar = None\<rparr>
   \<and> map_of (masterEvents_uniqueMap getEventSignature addedToCalendar setAddedToCalendar
      [\<lparr>session_id = 100, dateStr = ''lundi'', events =
         [\<lparr>title = ''Pitch Night!!'', date = ''24 oct'', location = ''Paris'',
           price = ''Inconnu'', description = ''first'', url = ''u0'', tags = [],
           addedToCalendar = None\<rparr>]\<rparr>,
       \<lparr>session_id = 100, dateStr = ''lundi'', events =
         [\<lparr>title = ''pitch night'', date = ''24 oct'', location = ''Paris'',
           price = ''Inconnu'', description = ''second'', url = ''u0'', tags = [],
           addedToCalendar = None\<rparr>]\<rparr>]) ''pitchnight_24oct''
   \<noteq> map_of (masterItems_uniqueMap getEventSignature addedToCalendar setAddedToCalendar
      [\<lparr>session_id = 100, dateStr = ''lundi'', events =
         [\<lparr>title = ''Pitch Night!!'', date = ''24 oct'', location = ''Paris'',
           price = ''Inconnu'', description = ''first'', url = ''u0'', tags = [],
           addedToCalendar = None\<rparr>]\<rparr>,
       \<lparr>session_id = 100, dateStr = ''lundi'', events =
         [\<lparr>title = ''pitch night'', date = ''24 oct'', location = ''Paris'',
           price = ''Inconnu'', description = ''second'', url = ''u0'', tags = [],
           addedToCalendar = None\<rparr>]\<rparr>]) ''pitchnight_24oct''"
  by code_simp

text \<open>
  Claim C10, amended. For every history whose session identifiers are pairwise distinct
  and in which no session holds two records with the same signature, the events variant
  of the merge (sessions by ascending identifier, content overwritten, flag OR-ed) and
  the news variant (sessions by descending identifier, first record kept, a true flag
  of an older copy carried over) give the same record for every signature. This holds
  over the event records and over the news records.
\<close>

theorem merge_variants_agree:
  "(distinct (map session_id history)
      \<and> (\<forall>s \<in> set history. distinct (map getEventSignature (events s)))
     \<longrightarrow> map_of (masterEvents_uniqueMap getEventSignature addedToCalendar setAddedToCalendar history)
         = map_of (masterItems_uniqueMap getEventSignature addedToCalendar setAddedToCalendar history))
   \<and> (distinct (map session_id history')
      \<and> (\<forall>s \<in> set history'. distinct (map getNewsSignature (events s)))
     \<longrightarrow> map_of (masterEvents_uniqueMap getNewsSignature read setRead history')
         = map_of (masterItems_uniqueMap getNewsSignature read setRead history'))"
  using merge_variants_agree_generic [OF flagLens_event, of history]
        merge_variants_agree_generic [OF flagLens_news, of history']
  by (intro conjI impI ext) blast+

theorem merge_variants_agree_witness:
  "let history =
     [\<lparr>session_id = 200, dateStr = ''mardi'', events =
         [\<lparr>title = ''PITCH NIGHT'', date = ''24 oct 22h-02h'', location = ''Station F'',
           price = ''Gratuit'', description = ''new text'', url = ''u1'', tags = [''Tech''],
           addedToCalendar = None\<rparr>]\<rparr>,
      \<lparr>session_id = 100, dateStr = ''lundi'', events =
         [\<lparr>title = ''Pitch Night!!'', date = ''24 Oct, 22h-02h'', location = ''Paris'',
           price = ''Inconnu'', description = ''old text'', url = ''u0'', tags = [],
           addedToCalendar = Some True\<rparr>,
          \<lparr>title = ''Salon'', date = ''15 nov'', location = ''Paris'',
           price = ''Inconnu'', description = ''jour'', url = ''u2'', tags = [],
           addedToCalendar = Some False\<rparr>]\<rparr>]
   in distinct (map session_id history)
      \<and> list_all (\<lambda>s. distinct (map getEventSignature (events s))) history
      \<and> map_of (masterEvents_uniqueMap getEventSignature addedToCalendar setAddedToCalendar history)
        = map_of (masterItems_uniqueMap getEventSignature addedToCalendar setAddedToCalendar history)"
  (is "let history = ?H in ?P history")
proof -
  have d: "distinct (map session_id ?H)" by simp
  have u: "list_all (\<lambda>s. distinct (map getEventSignature (events s))) ?H" by code_simp
  then have u': "\<forall>s \<in> set ?H. distinct (map getEventSignature (events s))"
    by (simp only: list_all_iff)
  note t = merge_variants_agree [of ?H "[]"]
  from t have imp: "distinct (map session_id ?H)
      \<and> (\<forall>s \<in> set ?H. distinct (map getEventSignature (events s)))
     \<longrightarrow> map_of (masterEvents_uniqueMap getEventSignature addedToCalendar setAddedToCalendar ?H)
         = map_of (masterItems_uniqueMap getEventSignature addedToCalendar setAddedToCalendar ?H)"
    by (rule conjunct1)
  from d u' have "distinct (map session_id ?H)
      \<and> (\<forall>s \<in> set ?H. distinct (map getEventSignature (events s)))"
    by (rule conjI)
  with imp
  have "map_of (masterEvents_uniqueMap getEventSignature addedToCalendar setAddedToCalendar ?H)
        = map_of (masterItems_uniqueMap getEventSignature addedToCalendar setAddedToCalendar ?H)"
    by (rule mp)
  with d u show ?thesis unfolding Let_def by (intro conjI)
qed

section \<open>The calendar: the year of a day\<close>

text \<open>
  \<open>YearFromDay\<close> computes what the ECMAScript specification defines: the year of day \<open>d\<close>
  is the largest \<open>y\<close> with \<open>DayFromYear(y) \<le> d\<close>.
\<close>

lemma div_qr:
  fixes q r k :: int
  assumes "0 \<le> r" "r < k"
  shows "(k * q + r) div k = q"
proof -
  from assms have "k \<noteq> 0" by auto
  then have "(r + q * k) div k = q + r div k" by (rule div_mult_self1)
  moreover from assms have "r div k = 0" by (simp add: div_pos_pos_trivial)
  ultimately show ?thesis by (simp add: algebra_simps)
qed

lemma DayFromYear_decomposed:
  assumes "0 \<le> q100" "q100 \<le> 3" "0 \<le> q4" "q4 \<le> 24" "0 \<le> q1" "q1 \<le> 3"
  shows "DayFromYear (1601 + 400 * q400 + 100 * q100 + 4 * q4 + q1)
       = 146097 * q400 + 36524 * q100 + 1461 * q4 + 365 * q1 - 134774"
proof -
  let ?Y = "400 * q400 + 100 * q100 + 4 * q4 + q1"
  have "?Y - 368 = 4 * (100 * q400 + 25 * q100 + q4 - 92) + q1" by simp
  moreover have "(4 * (100 * q400 + 25 * q100 + q4 - 92) + q1) div 4 = 100 * q400 + 25 * q100 + q4 - 92"
    using assms by (intro div_qr) simp_all
  ultimately have d4: "(?Y - 368) div 4 = 100 * q400 + 25 * q100 + q4 - 92" by (simp only:)
  have "?Y - 300 = 100 * (4 * q400 + q100 - 3) + (4 * q4 + q1)" by simp
  moreover have "(100 * (4 * q400 + q100 - 3) + (4 * q4 + q1)) div 100 = 4 * q400 + q100 - 3"
    using assms by (intro div_qr) simp_all
  ultimately have d100: "(?Y - 300) div 100 = 4 * q400 + q100 - 3" by (simp only:)
  have "?Y = 400 * q400 + (100 * q100 + 4 * q4 + q1)" by simp
  moreover have "(400 * q400 + (100 * q100 + 4 * q4 + q1)) div 400 = q400"
    using assms by (intro div_qr) simp_all
  ultimately have d400: "?Y div 400 = q400" by (simp only:)
  have "DayFromYear (1601 + 400 * q400 + 100 * q100 + 4 * q4 + q1)
      = 365 * (?Y - 369) + (?Y - 368) div 4 - (?Y - 300) div 100 + ?Y div 400"
    by (simp add: DayFromYear_def algebra_simps)
  also have "\<dots> = 146097 * q400 + 36524 * q100 + 1461 * q4 + 365 * q1 - 134774"
    unfolding d4 d100 d400 by simp
  finally show ?thesis .
qed

lemma div_mult_le_int:
  fixes a k :: int
  assumes "0 < k"
  shows "(a div k) * k \<le> a"
proof -
  have "(a div k) * k + a mod k = a" by simp
  moreover from assms have "0 \<le> a mod k" by simp
  ultimately show ?thesis by linarith
qed

lemma YearFromDay_spec:
  "DayFromYear (YearFromDay d) \<le> d \<and> d < DayFromYear (YearFromDay d + 1)"
proof -
  define n where "n = d + 134774"
  define q400 where "q400 = n div 146097"
  define r400 where "r400 = n mod 146097"
  define q100 where "q100 = min (r400 div 36524) 3"
  define r100 where "r100 = r400 - q100 * 36524"
  define q4 where "q4 = r100 div 1461"
  define r4 where "r4 = r100 mod 1461"
  define q1 where "q1 = min (r4 div 365) 3"
  have y: "YearFromDay d = 1601 + 400 * q400 + 100 * q100 + 4 * q4 + q1"
    by (simp add: YearFromDay_def Let_def n_def q400_def r400_def q100_def r100_def q4_def
        r4_def q1_def)
  have n: "n = 146097 * q400 + r400"
    by (simp add: q400_def r400_def)
  have r400: "0 \<le> r400" "r400 < 146097" by (simp_all add: r400_def)
  have q100: "0 \<le> q100" "q100 \<le> 3" using r400 by (simp_all add: q100_def pos_imp_zdiv_nonneg_iff)
  have "q100 * 36524 \<le> (r400 div 36524) * 36524" by (simp add: q100_def)
  also have "\<dots> \<le> r400" by (rule div_mult_le_int) simp
  finally have r100_0: "0 \<le> r100" by (simp add: r100_def)
  have r100_lt: "r100 < 36524" if "q100 < 3"
  proof -
    from that have "q100 = r400 div 36524" by (simp add: q100_def min_def split: if_splits)
    then have "r100 = r400 mod 36524" by (simp add: r100_def minus_div_mult_eq_mod)
    then show ?thesis by simp
  qed
  have r100_le: "r100 \<le> 36524" using r100_lt r400 q100 by (cases "q100 < 3") (auto simp: r100_def)
  have r100: "r100 = 1461 * q4 + r4" by (simp add: q4_def r4_def)
  have r4: "0 \<le> r4" "r4 < 1461" by (simp_all add: r4_def)
  have q4: "0 \<le> q4" "q4 \<le> 24"
  proof -
    show "0 \<le> q4" using r100_0 by (simp add: q4_def pos_imp_zdiv_nonneg_iff)
    have "r100 div 1461 \<le> 36524 div 1461" using r100_le by (rule zdiv_mono1) simp
    then show "q4 \<le> 24" by (simp add: q4_def)
  qed
  have q1: "0 \<le> q1" "q1 \<le> 3" using r4 by (simp_all add: q1_def pos_imp_zdiv_nonneg_iff)
  have "q1 * 365 \<le> (r4 div 365) * 365" by (simp add: q1_def)
  also have "\<dots> \<le> r4" by (rule div_mult_le_int) simp
  finally have low: "365 * q1 \<le> r4" by simp
  have r4_lt: "r4 - 365 * q1 < 365" if "q1 < 3"
  proof -
    from that have "q1 = r4 div 365" by (simp add: q1_def min_def split: if_splits)
    then have "r4 - 365 * q1 = r4 mod 365" by (simp add: minus_mult_div_eq_mod)
    then show ?thesis by simp
  qed
  have d: "d = 146097 * q400 + 36524 * q100 + 1461 * q4 + r4 - 134774"
    using n r100 by (simp add: n_def r100_def)
  have lower: "DayFromYear (YearFromDay d) \<le> d"
    unfolding y DayFromYear_decomposed [OF q100 q4 q1] using low by (simp add: d)
  have upper: "d < DayFromYear (YearFromDay d + 1)"
  proof (cases "q1 < 3")
    case True
    have "YearFromDay d + 1 = 1601 + 400 * q400 + 100 * q100 + 4 * q4 + (q1 + 1)"
      by (simp add: y)
    moreover have "DayFromYear (1601 + 400 * q400 + 100 * q100 + 4 * q4 + (q1 + 1))
        = 146097 * q400 + 36524 * q100 + 1461 * q4 + 365 * (q1 + 1) - 134774"
      using q1 True by (intro DayFromYear_decomposed q100 q4) simp_all
    ultimately show ?thesis using r4_lt [OF True] by (simp add: d)
  next
    case False
    with q1 have q13: "q1 = 3" by simp
    show ?thesis
    proof (cases "q4 < 24")
      case True
      have "YearFromDay d + 1 = 1601 + 400 * q400 + 100 * q100 + 4 * (q4 + 1) + 0"
        by (simp add: y q13)
      moreover have "DayFromYear (1601 + 400 * q400 + 100 * q100 + 4 * (q4 + 1) + 0)
          = 146097 * q400 + 36524 * q100 + 1461 * (q4 + 1) + 365 * 0 - 134774"
        using q4 True by (intro DayFromYear_decomposed q100) simp_all
      ultimately show ?thesis using r4 by (simp add: d)
    next
      case False
      with q4 have q424: "q4 = 24" by simp
      show ?thesis
      proof (cases "q100 < 3")
        case True
        have "YearFromDay d + 1 = 1601 + 400 * q400 + 100 * (q100 + 1) + 4 * 0 + 0"
          by (simp add: y q13 q424)
        moreover have "DayFromYear (1601 + 400 * q400 + 100 * (q100 + 1) + 4 * 0 + 0)
            = 146097 * q400 + 36524 * (q100 + 1) + 1461 * 0 + 365 * 0 - 134774"
          using q100 True by (intro DayFromYear_decomposed) simp_all
        ultimately show ?thesis using r100_lt [OF True] r100 by (simp add: d q424)
      next
        case False
        with q100 have q1003: "q100 = 3" by simp
        have "YearFromDay d + 1 = 1601 + 400 * (q400 + 1) + 100 * 0 + 4 * 0 + 0"
          by (simp add: y q13 q424 q1003)
        moreover have "DayFromYear (1601 + 400 * (q400 + 1) + 100 * 0 + 4 * 0 + 0)
            = 146097 * (q400 + 1) + 36524 * 0 + 1461 * 0 + 365 * 0 - 134774"
          by (intro DayFromYear_decomposed) simp_all
        ultimately show ?thesis using r400(2) r100 by (simp add: d q424 q1003 r100_def)
      qed
    qed
  qed
  from lower upper show ?thesis ..
qed

lemma DayFromYear_step: "DayFromYear y < DayFromYear (y + 1)"
proof -
  define a b c a' b' c' where "a = (y - 1969) div 4" and "b = (y - 1901) div 100"
    and "c = (y - 1601) div 400" and "a' = (y + 1 - 1969) div 4"
    and "b' = (y + 1 - 1901) div 100" and "c' = (y + 1 - 1601) div 400"
  have a: "a \<le> a'" unfolding a_def a'_def by (rule zdiv_mono1) simp_all
  have "(y + 1 - 1901) div 100 \<le> (y - 1901 + 100) div 100" by (rule zdiv_mono1) simp_all
  then have b: "b' \<le> b + 1" unfolding b_def b'_def by simp
  have c: "c \<le> c'" unfolding c_def c'_def by (rule zdiv_mono1) simp_all
  have l: "DayFromYear y = 365 * (y - 1970) + a - b + c"
    by (simp only: DayFromYear_def a_def b_def c_def)
  have r: "DayFromYear (y + 1) = 365 * (y + 1 - 1970) + a' - b' + c'"
    by (simp only: DayFromYear_def a'_def b'_def c'_def)
  have "365 * (y - 1970) + a - b + c < 365 * (y + 1 - 1970) + a' - b' + c'"
    using a b c by simp
  then show ?thesis by (simp only: l r)
qed

lemma DayFromYear_mono: "y \<le> z \<Longrightarrow> DayFromYear y \<le> DayFromYear z"
proof (induction "nat (z - y)" arbitrary: z)
  case 0
  then show ?case by simp
next
  case (Suc k)
  then have "k = nat ((z - 1) - y)" and "y \<le> z - 1" by simp_all
  then have "DayFromYear y \<le> DayFromYear (z - 1)" by (rule Suc.hyps(1))
  also have "\<dots> < DayFromYear z" using DayFromYear_step [of "z - 1"] by simp
  finally show ?case by simp
qed

lemma YearFromDay_largest:
  "DayFromYear y \<le> d \<longleftrightarrow> y \<le> YearFromDay d"
proof
  assume le: "DayFromYear y \<le> d"
  show "y \<le> YearFromDay d"
  proof (rule ccontr)
    assume "\<not> y \<le> YearFromDay d"
    then have "YearFromDay d + 1 \<le> y" by simp
    then have "DayFromYear (YearFromDay d + 1) \<le> DayFromYear y" by (rule DayFromYear_mono)
    with le YearFromDay_spec [of d] show False by linarith
  qed
next
  assume "y \<le> YearFromDay d"
  then have "DayFromYear y \<le> DayFromYear (YearFromDay d)" by (rule DayFromYear_mono)
  with YearFromDay_spec [of d] show "DayFromYear y \<le> d" by linarith
qed

section \<open>The date parser: overnight spans and defaults\<close>

lemma parseInt_nonneg: "0 \<le> parseInt s"
proof -
  have "0 \<le> n \<Longrightarrow> \<forall>c \<in> set ds. isDigit c \<Longrightarrow>
        0 \<le> foldl (\<lambda>n c. 10 * n + (int (code c) - 48)) n ds" for n ds
    by (induction ds arbitrary: n) (auto simp: isDigit_def)
  moreover have "\<forall>c \<in> set (takeWhile isDigit s). isDigit c"
    by (auto dest: set_takeWhileD)
  ultimately show ?thesis by (simp add: parseInt_def)
qed

lemma MakeDay_own_month:
  "MakeDay (YearFromTime t) (MonthFromTime t) dt = Day t - DateFromTime t + dt"
proof -
  have "0 \<le> MonthFromTime t \<and> MonthFromTime t < 12"
    by (simp add: MonthFromTime_def Let_def)
  then have "MonthFromTime t div 12 = 0" "MonthFromTime t mod 12 = MonthFromTime t"
    by simp_all
  then show ?thesis
    by (simp add: MakeDay_def Let_def DateFromTime_def DayWithinYear_def)
qed

lemma setDate_next: "setDate t (getDate t + 1) = t + msPerDay"
proof -
  have "(t div msPerDay + 1) * msPerDay + t mod msPerDay = t + msPerDay"
    by (simp add: algebra_simps)
  then show ?thesis
    by (simp add: setDate_def getDate_def MakeDay_own_month MakeDate_def Day_def TimeWithinDay_def)
qed

lemma Day_next: "Day (t + msPerDay) = Day t + 1"
  by (simp add: Day_def msPerDay_def)

lemma TimeWithinDay_next: "TimeWithinDay (t + msPerDay) = TimeWithinDay t"
  by (simp add: TimeWithinDay_def msPerDay_def)

lemma detectTimes_two:
  assumes "matchAllTime cleanStr = m0 # m1 # rest"
  shows "detectTimes cleanStr
           = (parseInt (fst m0), minuteOf (snd m0), parseInt (fst m1), minuteOf (snd m1))"
  using assms by (simp add: detectTimes_def)

lemma parseEventDateInfo_two_times:
  assumes "matchAllTime (toLowerCase dateText) = m0 # m1 # rest"
  shows "startDate (parseEventDateInfo now dateText)
           = newDate (detectYear now (detectMonth now (toLowerCase dateText)))
               (detectMonth now (toLowerCase dateText)) (detectDay now (toLowerCase dateText))
               (parseInt (fst m0)) (minuteOf (snd m0)) 0"
    and "endDate (parseEventDateInfo now dateText)
           = (let endBuilt = setHours3
                    (newDate (detectYear now (detectMonth now (toLowerCase dateText)))
                       (detectMonth now (toLowerCase dateText)) (detectDay now (toLowerCase dateText)) 0 0 0)
                    (parseInt (fst m1)) (minuteOf (snd m1)) 0
              in if endBuilt < startDate (parseEventDateInfo now dateText)
                 then endBuilt + msPerDay else endBuilt)"
proof -
  have ne: "parseInt (fst m1) \<noteq> -1"
    using parseInt_nonneg [of "fst m1"] by simp
  show "startDate (parseEventDateInfo now dateText)
           = newDate (detectYear now (detectMonth now (toLowerCase dateText)))
               (detectMonth now (toLowerCase dateText)) (detectDay now (toLowerCase dateText))
               (parseInt (fst m0)) (minuteOf (snd m0)) 0"
    by (simp add: parseEventDateInfo_def Let_def detectTimes_two [OF assms])
  then show "endDate (parseEventDateInfo now dateText)
           = (let endBuilt = setHours3
                    (newDate (detectYear now (detectMonth now (toLowerCase dateText)))
                       (detectMonth now (toLowerCase dateText)) (detectDay now (toLowerCase dateText)) 0 0 0)
                    (parseInt (fst m1)) (minuteOf (snd m1)) 0
              in if endBuilt < startDate (parseEventDateInfo now dateText)
                 then endBuilt + msPerDay else endBuilt)"
    using ne
    by (simp add: parseEventDateInfo_def Let_def detectTimes_two [OF assms] setDate_next)
qed

lemma newDate_split:
  "newDate y m d h mi 0 = newDate y m d 0 0 0 + h * msPerHour + mi * msPerMinute"
  by (simp add: newDate_def MakeDate_def MakeTime_def)

lemma newDate_midnight: "newDate y m d 0 0 0 = MakeDay (if 0 \<le> y \<and> y \<le> 99 then 1900 + y else y) m d * msPerDay"
  by (simp add: newDate_def MakeDate_def MakeTime_def)

lemma setHours3_day:
  "setHours3 (D * msPerDay) h mi 0 = D * msPerDay + h * msPerHour + mi * msPerMinute"
  by (simp add: setHours3_def MakeDate_def MakeTime_def Day_def msFromTime_def
      msPerDay_def msPerSecond_def)

lemma overnight_example:
  fixes now :: Date
  defines "r \<equiv> parseEventDateInfo now ''24 oct, 22h-02h''"
  shows "Day (endDate r) = Day (startDate r) + 1"
    and "getHours (endDate r) = 2" and "getMinutes (endDate r) = 0"
    and "getHours (startDate r) = 22" and "getMinutes (startDate r) = 0"
proof -
  let ?s = "''24 oct, 22h-02h''"
  have lc: "toLowerCase ?s = ?s" by code_simp
  have ms: "matchAllTime (toLowerCase ?s) = [(''22'', []), (''02'', [])]" by code_simp
  have p: "parseInt ''22'' = 22" "parseInt ''02'' = 2" "minuteOf [] = 0" by code_simp+
  let ?y = "detectYear now (detectMonth now ?s)"
  let ?base = "newDate ?y (detectMonth now ?s) (detectDay now ?s) 0 0 0"
  obtain D where D: "?base = D * msPerDay" using newDate_midnight by blast
  have st: "startDate r = D * msPerDay + 22 * msPerHour"
    using parseEventDateInfo_two_times(1) [OF ms, of now]
    by (simp add: r_def lc p newDate_split [of _ _ _ 22] D)
  have en: "endDate r = D * msPerDay + 2 * msPerHour + msPerDay"
    using parseEventDateInfo_two_times(2) [OF ms, of now] st
    by (simp add: r_def lc p setHours3_day D Let_def msPerHour_def)
  show "Day (endDate r) = Day (startDate r) + 1"
    by (simp add: st en Day_def msPerDay_def msPerHour_def)
  show "getHours (endDate r) = 2"
    by (simp add: en getHours_def HourFromTime_def msPerDay_def msPerHour_def)
  show "getMinutes (endDate r) = 0"
    by (simp add: en getMinutes_def MinFromTime_def msPerDay_def msPerHour_def msPerMinute_def)
  show "getHours (startDate r) = 22"
    by (simp add: st getHours_def HourFromTime_def msPerDay_def msPerHour_def)
  show "getMinutes (startDate r) = 0"
    by (simp add: st getMinutes_def MinFromTime_def msPerDay_def msPerHour_def msPerMinute_def)
qed

lemma minuteOf_nonneg: "0 \<le> minuteOf s"
  by (simp add: minuteOf_def parseInt_nonneg)

lemma Day_newDate_time_of_day:
  assumes "0 \<le> h" "h < 24" "0 \<le> mi" "mi < 60"
  shows "Day (newDate y m d h mi 0) = Day (newDate y m d 0 0 0)"
proof -
  obtain D where D: "newDate y m d 0 0 0 = D * msPerDay" using newDate_midnight by blast
  have "0 \<le> h * 3600000 + mi * 60000" "h * 3600000 + mi * 60000 < 86400000"
    using assms by auto
  then have "(D * 86400000 + (h * 3600000 + mi * 60000)) div 86400000 = D"
    by (simp add: div_pos_pos_trivial)
  then show ?thesis
    by (simp add: newDate_split [of y m d h mi] D Day_def msPerDay_def msPerHour_def msPerMinute_def
        add.assoc)
qed

lemma parseEventDateInfo_one_time:
  assumes "matchAllTime (toLowerCase dateText) = [m0]"
  shows "startDate (parseEventDateInfo now dateText)
           = newDate (detectYear now (detectMonth now (toLowerCase dateText)))
               (detectMonth now (toLowerCase dateText)) (detectDay now (toLowerCase dateText))
               (parseInt (fst m0)) (minuteOf (snd m0)) 0"
    and "endDate (parseEventDateInfo now dateText)
           = setHours3
               (newDate (detectYear now (detectMonth now (toLowerCase dateText)))
                  (detectMonth now (toLowerCase dateText)) (detectDay now (toLowerCase dateText)) 0 0 0)
               (getHours (startDate (parseEventDateInfo now dateText)) + 2)
               (getMinutes (startDate (parseEventDateInfo now dateText))) 0"
  using assms by (simp_all add: parseEventDateInfo_def Let_def detectTimes_def)

lemma parseEventDateInfo_no_time:
  assumes "matchAllTime (toLowerCase dateText) = []"
  shows "startDate (parseEventDateInfo now dateText)
           = newDate (detectYear now (detectMonth now (toLowerCase dateText)))
               (detectMonth now (toLowerCase dateText)) (detectDay now (toLowerCase dateText)) 9 0 0"
    and "endDate (parseEventDateInfo now dateText)
           = startDate (parseEventDateInfo now dateText) + 2 * msPerHour"
proof -
  let ?y = "detectYear now (detectMonth now (toLowerCase dateText))"
  let ?m = "detectMonth now (toLowerCase dateText)" and ?d = "detectDay now (toLowerCase dateText)"
  obtain D where D: "newDate ?y ?m ?d 0 0 0 = D * msPerDay" using newDate_midnight by blast
  show st: "startDate (parseEventDateInfo now dateText) = newDate ?y ?m ?d 9 0 0"
    using assms by (simp add: parseEventDateInfo_def Let_def detectTimes_def)
  have s9: "newDate ?y ?m ?d 9 0 0 = D * msPerDay + 9 * msPerHour"
    by (simp add: newDate_split [of _ _ _ 9] D)
  have "endDate (parseEventDateInfo now dateText)
      = setHours3 (D * msPerDay) (getHours (D * msPerDay + 9 * msPerHour) + 2)
          (getMinutes (D * msPerDay + 9 * msPerHour)) 0"
    using assms by (simp add: parseEventDateInfo_def Let_def detectTimes_def s9 D)
  also have "getHours (D * msPerDay + 9 * msPerHour) = 9"
    by (simp add: getHours_def HourFromTime_def msPerDay_def msPerHour_def)
  also have "getMinutes (D * msPerDay + 9 * msPerHour) = 0"
    by (simp add: getMinutes_def MinFromTime_def msPerDay_def msPerHour_def msPerMinute_def)
  finally show "endDate (parseEventDateInfo now dateText)
           = startDate (parseEventDateInfo now dateText) + 2 * msPerHour"
    by (simp add: st s9 setHours3_day)
qed

lemma getHours_time_of_day:
  assumes "0 \<le> T" "T < 1440"
  shows "getHours (D * msPerDay + T * msPerMinute) = T div 60"
    and "getMinutes (D * msPerDay + T * msPerMinute) = T mod 60"
proof -
  have t: "D * 86400000 + T * 60000 = (T + (D * 24) * 60) * 60000" by simp
  have r: "0 \<le> T div 60" "T div 60 < 24" using assms by simp_all
  have "(D * 86400000 + T * 60000) div 3600000 = ((T + (D * 24) * 60) * 60000) div (60 * 60000)"
    by (simp only: t) simp
  also have "\<dots> = (T + (D * 24) * 60) div 60"
    by (rule div_mult_mult2) simp
  also have "\<dots> = D * 24 + T div 60"
    by (rule div_mult_self1) simp
  finally have a: "(D * 86400000 + T * 60000) div 3600000 = D * 24 + T div 60" .
  have "(D * 24 + T div 60) mod 24 = (T div 60) mod 24"
    by (rule mod_mult_self3)
  also have "\<dots> = T div 60"
    using r by (rule mod_pos_pos_trivial)
  finally have b: "(D * 24 + T div 60) mod 24 = T div 60" .
  have "getHours (D * msPerDay + T * msPerMinute) = ((D * 86400000 + T * 60000) div 3600000) mod 24"
    by (simp only: getHours_def HourFromTime_def msPerDay_def msPerMinute_def msPerHour_def)
  then show "getHours (D * msPerDay + T * msPerMinute) = T div 60"
    by (simp only: a b)
  have "(D * 86400000 + T * 60000) div 60000 = T + (D * 24) * 60"
    by (simp only: t) simp
  moreover have "(T + (D * 24) * 60) mod 60 = T mod 60" by (rule mod_mult_self1)
  moreover have "getMinutes (D * msPerDay + T * msPerMinute) = ((D * 86400000 + T * 60000) div 60000) mod 60"
    by (simp only: getMinutes_def MinFromTime_def msPerDay_def msPerMinute_def)
  ultimately show "getMinutes (D * msPerDay + T * msPerMinute) = T mod 60"
    by (simp only:)
qed

lemma default_duration_time_of_day:
  assumes ms: "matchAllTime (toLowerCase dateText) = [m0]"
    and tod: "parseInt (fst m0) * 60 + minuteOf (snd m0) < 1440"
  shows "endDate (parseEventDateInfo now dateText)
         = startDate (parseEventDateInfo now dateText) + 2 * msPerHour"
proof -
  let ?cs = "toLowerCase dateText"
  let ?base = "newDate (detectYear now (detectMonth now ?cs)) (detectMonth now ?cs) (detectDay now ?cs) 0 0 0"
  define T where "T = parseInt (fst m0) * 60 + minuteOf (snd m0)"
  obtain D where D: "?base = D * msPerDay" using newDate_midnight by blast
  have T0: "0 \<le> T" and T1: "T < 1440"
    using parseInt_nonneg [of "fst m0"] minuteOf_nonneg [of "snd m0"] tod by (simp_all add: T_def)
  have "startDate (parseEventDateInfo now dateText)
      = D * msPerDay + (parseInt (fst m0) * 60 + minuteOf (snd m0)) * msPerMinute"
    using parseEventDateInfo_one_time(1) [OF ms, of now]
    by (simp add: newDate_split [of _ _ _ "parseInt (fst m0)"] D msPerHour_def msPerMinute_def)
  then have st: "startDate (parseEventDateInfo now dateText) = D * msPerDay + T * msPerMinute"
    by (simp only: T_def)
  have en: "endDate (parseEventDateInfo now dateText)
      = D * msPerDay + (T div 60 + 2) * msPerHour + (T mod 60) * msPerMinute"
    using parseEventDateInfo_one_time(2) [OF ms, of now]
    unfolding st D getHours_time_of_day [OF T0 T1] by (simp only: setHours3_day)
  have "(T div 60 * 60 + T mod 60) * 60000 = T * 60000"
    by (simp only: div_mult_mod_eq)
  then have "(T div 60) * 3600000 + (T mod 60) * 60000 = T * 60000"
    by (simp only: distrib_right mult.assoc)
  then show ?thesis unfolding st en msPerHour_def msPerMinute_def
    by (simp only: distrib_right)
qed

lemma parseEventDateInfo_empty_text:
  "parseEventDateInfo now [] =
     \<lparr>startDate = newDate (getFullYear now) (getMonth now) (getDate now + 1) 9 0 0,
      endDate = newDate (getFullYear now) (getMonth now) (getDate now + 1) 9 0 0 + 2 * msPerHour\<rparr>"
proof -
  have lc: "toLowerCase [] = []" by (simp add: toLowerCase_def)
  have mo: "detectMonth now [] = getMonth now"
    by (simp add: detectMonth_def months_def startsWith_def)
  have dy: "detectDay now [] = getDate now + 1" by (simp add: detectDay_def)
  have yr: "detectYear now (getMonth now) = getFullYear now" by (simp add: detectYear_def Let_def)
  have ms: "matchAllTime (toLowerCase []) = []" by (simp add: lc)
  from parseEventDateInfo_no_time [OF ms, of now]
  have "startDate (parseEventDateInfo now []) = newDate (getFullYear now) (getMonth now) (getDate now + 1) 9 0 0"
    and "endDate (parseEventDateInfo now []) = startDate (parseEventDateInfo now []) + 2 * msPerHour"
    by (simp_all add: lc mo dy yr)
  then show ?thesis by (cases "parseEventDateInfo now []") simp
qed

text \<open>
  Claim C6. The parser is a total function and raises no error; for a text that gives
  nothing it returns the current month, the day after the current day, 09:00 and an end
  two hours later (\<open>parseEventDateInfo_empty_text\<close>). The default for the end instant,
  two hours after the start, is not met for every text: in \<open>24 oct, 24h\<close> one time and no
  end time is found, the start instant runs over into the next calendar day, and the end
  instant returned lies 22 hours before the start instant, at every clock reading.
  (\<open>default_duration_time_of_day\<close> shows the default of two hours for every start time
  below 24:00, \<open>parseEventDateInfo_no_time\<close> for a text without any time.)
\<close>

theorem default_end_before_start:
  "matchAllTime (toLowerCase ''24 oct, 24h'') = [(''24'', [])]
   \<and> (let r = parseEventDateInfo now ''24 oct, 24h''
      in endDate r = startDate r - 22 * msPerHour
         \<and> endDate r < startDate r
         \<and> endDate r \<noteq> startDate r + 2 * msPerHour)"
proof -
  let ?s = "''24 oct, 24h''"
  let ?r = "parseEventDateInfo now ?s"
  have lc: "toLowerCase ?s = ?s" by code_simp
  have ms: "matchAllTime (toLowerCase ?s) = [(''24'', [])]" by code_simp
  have p: "parseInt ''24'' = 24" "minuteOf [] = 0" by code_simp+
  let ?base = "newDate (detectYear now (detectMonth now ?s)) (detectMonth now ?s) (detectDay now ?s) 0 0 0"
  obtain D where D: "?base = D * msPerDay" using newDate_midnight by blast
  have st: "startDate ?r = D * msPerDay + 24 * msPerHour"
    using parseEventDateInfo_one_time(1) [OF ms, of now]
    by (simp add: lc p newDate_split [of _ _ _ 24] D)
  have h: "getHours (D * msPerDay + 24 * msPerHour) = 0"
    by (simp add: getHours_def HourFromTime_def msPerDay_def msPerHour_def)
  have m: "getMinutes (D * msPerDay + 24 * msPerHour) = 0"
    by (simp add: getMinutes_def MinFromTime_def msPerDay_def msPerHour_def msPerMinute_def)
  have en: "endDate ?r = D * msPerDay + 2 * msPerHour"
    using parseEventDateInfo_one_time(2) [OF ms, of now]
    by (simp add: lc D st h m setHours3_day)
  show ?thesis
    by (simp add: ms Let_def st en msPerHour_def)
qed

theorem default_end_before_start_witness:
  "let r = parseEventDateInfo 1793613600000 ''24 oct, 24h''
   in startDate r = 1824422400000 \<and> endDate r = 1824343200000
      \<and> endDate r = startDate r - 22 * msPerHour"
proof -
  let ?r = "parseEventDateInfo 1793613600000 ''24 oct, 24h''"
  have s: "startDate ?r = 1824422400000" by code_simp
  have e: "endDate ?r = 1824343200000" by code_simp
  from default_end_before_start [of 1793613600000]
  have "endDate ?r = startDate ?r - 22 * msPerHour" by (simp add: Let_def)
  with s e show ?thesis by (simp add: Let_def)
qed

lemma setHours3_on_day:
  assumes "t = D * msPerDay + T * msPerMinute" "0 \<le> T" "T < 1440"
  shows "setHours3 t h mi 0 = D * msPerDay + h * msPerHour + mi * msPerMinute"
proof -
  have a: "0 \<le> T * 60000" "T * 60000 < 86400000" using assms by auto
  then have "(D * 86400000 + T * 60000) div 86400000 = D"
    by (simp add: div_pos_pos_trivial)
  moreover have "(D * 86400000 + T * 60000) mod 1000 = 0"
    by (simp add: mod_add_eq [symmetric] mod_mult_eq [symmetric])
  ultimately show ?thesis
    using assms(1)
    by (simp add: setHours3_def MakeDate_def MakeTime_def Day_def msFromTime_def
      msPerDay_def msPerSecond_def msPerMinute_def msPerHour_def)
qed

lemma overnight_span_time_of_day:
  assumes ms: "matchAllTime (toLowerCase dateText) = m0 # m1 # rest"
    and tod: "parseInt (fst m0) * 60 + minuteOf (snd m0) < 1440"
  shows "endDate (parseEventDateInfo now dateText)
         = (let start = startDate (parseEventDateInfo now dateText);
                endOnStartDay = setHours3 start (parseInt (fst m1)) (minuteOf (snd m1)) 0
            in if endOnStartDay < start then endOnStartDay + msPerDay else endOnStartDay)"
proof -
  let ?cs = "toLowerCase dateText"
  let ?base = "newDate (detectYear now (detectMonth now ?cs)) (detectMonth now ?cs) (detectDay now ?cs) 0 0 0"
  define T where "T = parseInt (fst m0) * 60 + minuteOf (snd m0)"
  obtain D where D: "?base = D * msPerDay" using newDate_midnight by blast
  have T0: "0 \<le> T" and T1: "T < 1440"
    using parseInt_nonneg [of "fst m0"] minuteOf_nonneg [of "snd m0"] tod by (simp_all add: T_def)
  have "startDate (parseEventDateInfo now dateText)
      = D * msPerDay + (parseInt (fst m0) * 60 + minuteOf (snd m0)) * msPerMinute"
    using parseEventDateInfo_two_times(1) [OF ms, of now]
    by (simp add: newDate_split [of _ _ _ "parseInt (fst m0)"] D msPerHour_def msPerMinute_def)
  then have st: "startDate (parseEventDateInfo now dateText) = D * msPerDay + T * msPerMinute"
    by (simp only: T_def)
  have eq: "setHours3 (startDate (parseEventDateInfo now dateText)) h mi 0
          = setHours3 ?base h mi 0" for h mi
    unfolding setHours3_on_day [OF st T0 T1] D setHours3_day ..
  show ?thesis
    unfolding parseEventDateInfo_two_times(2) [OF ms] Let_def eq ..
qed

text \<open>
  Claim C7. Overnight span. With a second time in the text, the end instant is built on
  the day (year, month, day) that the start instant is built from, and advanced by one
  day when it is strictly before the start instant. That day is the calendar day of the
  start instant only while the start time stays below 24:00; then the end instant
  returned is the end time on the start's calendar day, one day later when that is
  before the start (\<open>overnight_span_time_of_day\<close>), and \<open>24 oct, 22h-02h\<close> gives a start
  at 22:00 and an end at 02:00 on the following calendar day (\<open>overnight_example\<close>).
  It is not so for every text with a second time: in \<open>24 oct, 25h-0h30\<close> the start
  instant runs over into the next calendar day, at 01:00. The end time on the calendar
  day of the start instant, 00:30, is strictly before the start instant, and yet the end
  instant returned is that very instant, not the instant one day later: the range
  returned ends 30 minutes before it starts, at every clock reading.
\<close>

theorem overnight_end_before_start:
  "matchAllTime (toLowerCase ''24 oct, 25h-0h30'') = [(''25'', []), (''0'', ''30'')]
   \<and> (let r = parseEventDateInfo now ''24 oct, 25h-0h30'';
          endOnStartDay = setHours3 (startDate r) 0 30 0
      in endOnStartDay < startDate r
         \<and> endDate r = endOnStartDay
         \<and> endDate r \<noteq> endOnStartDay + msPerDay
         \<and> endDate r < startDate r
         \<and> Day (endDate r) = Day (startDate r)
         \<and> getHours (startDate r) = 1 \<and> getMinutes (startDate r) = 0
         \<and> getHours (endDate r) = 0 \<and> getMinutes (endDate r) = 30)"
proof -
  let ?s = "''24 oct, 25h-0h30''"
  let ?r = "parseEventDateInfo now ?s"
  have lc: "toLowerCase ?s = ?s" by code_simp
  have ms: "matchAllTime (toLowerCase ?s) = [(''25'', []), (''0'', ''30'')]" by code_simp
  have p: "parseInt ''25'' = 25" "parseInt ''0'' = 0" "minuteOf [] = 0" "minuteOf ''30'' = 30"
    by code_simp+
  let ?base = "newDate (detectYear now (detectMonth now ?s)) (detectMonth now ?s) (detectDay now ?s) 0 0 0"
  obtain D where D: "?base = D * msPerDay" using newDate_midnight by blast
  have st: "startDate ?r = (D + 1) * msPerDay + 60 * msPerMinute"
    using parseEventDateInfo_two_times(1) [OF ms, of now]
    by (simp add: lc p newDate_split [of _ _ _ 25] D msPerDay_def msPerHour_def msPerMinute_def)
  have eb: "setHours3 (D * msPerDay) 0 30 0 = D * msPerDay + 30 * msPerMinute"
    by (simp add: setHours3_day)
  have "endDate ?r = D * msPerDay + 30 * msPerMinute + msPerDay"
    using parseEventDateInfo_two_times(2) [OF ms, of now]
    unfolding lc p fst_conv snd_conv D eb Let_def st
    by (simp add: msPerDay_def msPerMinute_def)
  then have en: "endDate ?r = (D + 1) * msPerDay + 30 * msPerMinute"
    by (simp add: algebra_simps)
  have on: "setHours3 (startDate ?r) 0 30 0 = (D + 1) * msPerDay + 30 * msPerMinute"
    using setHours3_on_day [OF st, of 0 30] by simp
  have d1: "Day (startDate ?r) = D + 1"
    unfolding st by (simp add: Day_def msPerDay_def msPerMinute_def)
  have d2: "Day (endDate ?r) = D + 1"
    unfolding en by (simp add: Day_def msPerDay_def msPerMinute_def)
  have h: "getHours (startDate ?r) = 1" "getMinutes (startDate ?r) = 0"
    unfolding st using getHours_time_of_day [of 60 "D + 1"] by simp_all
  have h': "getHours (endDate ?r) = 0" "getMinutes (endDate ?r) = 30"
    unfolding en using getHours_time_of_day [of 30 "D + 1"] by simp_all
  have lt: "endDate ?r < startDate ?r" unfolding st en by (simp add: msPerMinute_def)
  have ne: "endDate ?r \<noteq> endDate ?r + msPerDay" by (simp add: msPerDay_def)
  from ms lt ne d1 d2 h h' show ?thesis
    unfolding Let_def on en [symmetric] by simp
qed

theorem overnight_end_before_start_witness:
  "let r = parseEventDateInfo 1793613600000 ''24 oct, 25h-0h30''
   in startDate r = 1824426000000 \<and> endDate r = 1824424200000
      \<and> setHours3 (startDate r) 0 30 0 = endDate r
      \<and> newDate (getFullYear (startDate r)) (getMonth (startDate r)) (getDate (startDate r)) 0 30 0 = endDate r
      \<and> endDate r < startDate r"
proof -
  let ?r = "parseEventDateInfo 1793613600000 ''24 oct, 25h-0h30''"
  have s: "startDate ?r = 1824426000000" by code_simp
  have e: "endDate ?r = 1824424200000" by code_simp
  have n: "newDate (getFullYear 1824426000000) (getMonth 1824426000000) (getDate 1824426000000) 0 30 0 = 1824424200000"
    by code_simp
  from overnight_end_before_start [of 1793613600000]
  have "setHours3 (startDate ?r) 0 30 0 = endDate ?r" "endDate ?r < startDate ?r"
    by (simp_all add: Let_def)
  with s e n show ?thesis by (simp add: Let_def)
qed

section \<open>Scanning: what a failed scan leaves behind\<close>

lemma scanEvents_cases:
  "(stored_history (scanEvents JSON_parse gt0 toLocaleString now resp st) = stored_history st
      \<and> reported_error (scanEvents JSON_parse gt0 toLocaleString now resp st) \<noteq> None)
   \<or> (\<exists>t v. resp = Response t
         \<and> extractJson JSON_parse (case t of Some x \<Rightarrow> x | None \<Rightarrow> []) = Inr v
         \<and> lengthGreaterZero gt0 v = Some True
         \<and> stored_history (scanEvents JSON_parse gt0 toLocaleString now resp st)
             = saveScanToHistory toLocaleString now v (stored_history st)
         \<and> reported_error (scanEvents JSON_parse gt0 toLocaleString now resp st) = None)"
  by (auto simp: scanEvents_def Let_def split: response.splits sum.splits option.splits bool.splits)

lemma scanEvents_failed_call:
  "scanEvents JSON_parse gt0 toLocaleString now CallFailed st = st\<lparr>reported_error := Some GenerationFailed\<rparr>"
  by (simp add: scanEvents_def)

lemma scanEvents_array:
  assumes "extractJson JSON_parse (case t of Some x \<Rightarrow> x | None \<Rightarrow> []) = Inr (JArray xs)"
  shows "scanEvents JSON_parse gt0 toLocaleString now (Response t) st =
     (if xs = [] then st\<lparr>reported_error := Some NoEventsFound\<rparr>
      else st\<lparr>stored_history := saveScanToHistory toLocaleString now (JArray xs) (stored_history st),
              reported_error := None\<rparr>)"
  using assms by (simp add: scanEvents_def Let_def lengthGreaterZero_def)

text \<open>
  Claim C8. A scan whose generator call fails, or whose text yields no value with a
  positive \<open>length\<close>, reports an error and leaves the history as it was
  (\<open>scanEvents_cases\<close>). The test is \<open>length > 0\<close>, not "is a non-empty array": when the
  text has no fence and parses as a non-empty JSON string, no strategy gives a JSON
  array, and yet the scan reports no error and stores a new session whose events are
  that string.
\<close>

theorem scan_saves_json_string:
  "matchFenceJson textResponse = None \<and> matchFence textResponse = None
     \<and> JSON_parse textResponse = Some (JString s) \<and> s \<noteq> []
   \<longrightarrow> scanEvents JSON_parse gt0 toLocaleString now (Response (Some textResponse)) st
       = st\<lparr>stored_history :=
              \<lparr>session_id = getTime now, dateStr = toLocaleString now, events = JString s\<rparr>
                # stored_history st,
            reported_error := None\<rparr>"
  by (simp add: scanEvents_def extractJson_def Let_def lengthGreaterZero_def saveScanToHistory_def)

theorem scan_saves_json_string_witness:
  "let textResponse = [CHR 0x22, CHR ''h'', CHR ''i'', CHR 0x22];
       JSON_parse = (\<lambda>s. if s = textResponse then Some (JString ''hi'') else None);
       st = \<lparr>stored_history = [], reported_error = None\<rparr>;
       st' = scanEvents JSON_parse (\<lambda>v :: int json. False) (\<lambda>t. ''lundi'') 1793613600000
               (Response (Some textResponse)) st
   in matchFenceJson textResponse = None \<and> matchFence textResponse = None
      \<and> indexOf textResponse ''['' = -1
      \<and> stored_history st' = [\<lparr>session_id = 1793613600000, dateStr = ''lundi'', events = JString ''hi''\<rparr>]
      \<and> reported_error st' = None"
proof -
  let ?t = "[CHR 0x22, CHR ''h'', CHR ''i'', CHR 0x22]"
  let ?P = "\<lambda>s. if s = ?t then Some (JString ''hi'' :: int json) else None"
  let ?st = "\<lparr>stored_history = [] :: int json ScanSession list, reported_error = None\<rparr>"
  have f1: "matchFenceJson ?t = None" by code_simp
  have f2: "matchFence ?t = None" by code_simp
  have f3: "indexOf ?t ''['' = -1" by code_simp
  have p: "?P ?t = Some (JString ''hi'')" by simp
  have ne: "''hi'' \<noteq> []" by simp
  from f1 f2 p ne have pre: "matchFenceJson ?t = None \<and> matchFence ?t = None
     \<and> ?P ?t = Some (JString ''hi'') \<and> ''hi'' \<noteq> []"
    by (intro conjI)
  note t = mp [OF scan_saves_json_string [of ?t ?P "''hi''" "\<lambda>v. False" "\<lambda>t. ''lundi''" 1793613600000 ?st] pre]
  show ?thesis
    unfolding Let_def t using f1 f2 f3 by (simp add: getTime_def)
qed

end
